theory Spec2Isabelle
  imports Main "HOL-Library.Sublist"
begin

section \<open>JSON values as the program sees them\<close>

text \<open>
  Every value the reconciliation code of \<^verbatim>\<open>src/cli.ts\<close> touches comes out of
  \<^verbatim>\<open>JSON.parse\<close>: the local file through \<^verbatim>\<open>readJSON\<close>, the remote record through the
  HTTP client. A parsed object is kept as the list of its own keys in \<^verbatim>\<open>Object.keys\<close>
  order with their values (the keys of a parsed object are pairwise distinct); reading a
  key the object does not have gives \<^verbatim>\<open>undefined\<close>, which is \<open>None\<close> here. The numbers
  are a type parameter: all the code does with a number is compare it with \<^verbatim>\<open>===\<close> and
  test it for truthiness, so \<open>'n\<close> stands for the parsed numbers up to \<^verbatim>\<open>===\<close>, and \<open>0\<close>
  for the falsy one.
\<close>

datatype 'n json =
    JNull
  | JBool bool
  | JNum 'n
  | JStr string
  | JArr "'n json list"
  | JObj "(string \<times> 'n json) list"

type_synonym 'n object = "(string \<times> 'n json) list"

datatype error = TypeError | HttpError

text \<open>
  \<^verbatim>\<open>obj[key]\<close> on a parsed object: the own value, or \<^verbatim>\<open>undefined\<close>. (Under a key that
  every JavaScript object inherits, such as \<^verbatim>\<open>constructor\<close>, an object without an own
  value gives the inherited member instead; the comparisons below decide on it as they
  do on \<^verbatim>\<open>undefined\<close>, since it is identical to no parsed value and is not an array.)
\<close>

definition member_of :: "'n object \<Rightarrow> string \<Rightarrow> 'n json option" where
  "member_of obj key = map_of obj key"

text \<open>
  \<^verbatim>\<open>v.label\<close> and \<^verbatim>\<open>v.value\<close> on an element of a parsed array: reading a property of
  \<^verbatim>\<open>null\<close> throws a TypeError, an object gives its own value, and a boolean, number,
  string or array has neither name and gives \<^verbatim>\<open>undefined\<close>.
\<close>

fun dot :: "'n json \<Rightarrow> string \<Rightarrow> error + 'n json option" where
  "dot JNull key = Inl TypeError"
| "dot (JObj kvs) key = Inr (map_of kvs key)"
| "dot _ key = Inr None"

text \<open>
  \<^verbatim>\<open>x === y\<close> for two values that come from two different parses (one from the file,
  one from the remote record): primitives compare by value, and an array or an object is
  never the same heap object as anything on the other side.
\<close>

fun strict_eq :: "'n json option \<Rightarrow> 'n json option \<Rightarrow> bool" where
  "strict_eq None None = True"
| "strict_eq (Some JNull) (Some JNull) = True"
| "strict_eq (Some (JBool a)) (Some (JBool b)) = (a = b)"
| "strict_eq (Some (JNum a)) (Some (JNum b)) = (a = b)"
| "strict_eq (Some (JStr a)) (Some (JStr b)) = (a = b)"
| "strict_eq _ _ = False"

text \<open>What \<^verbatim>\<open>every\<close> and \<^verbatim>\<open>if\<close> make of a value.\<close>

fun truthy :: "('n::zero) json option \<Rightarrow> bool" where
  "truthy None = False"
| "truthy (Some JNull) = False"
| "truthy (Some (JBool b)) = b"
| "truthy (Some (JNum n)) = (n \<noteq> 0)"
| "truthy (Some (JStr s)) = (s \<noteq> [])"
| "truthy (Some (JArr xs)) = True"
| "truthy (Some (JObj kvs)) = True"

section \<open>Option-list comparison\<close>

text \<open>
  The callback of \<^verbatim>\<open>b.find\<close> in \<^verbatim>\<open>shouldContainAll\<close>:
  \<^verbatim>\<open>bOption.label === aOption.label && bOption.value === aOption.value\<close>,
  read left to right, the values only when the labels agree.
\<close>

definition same_option :: "'n json \<Rightarrow> 'n json \<Rightarrow> error + bool" where
  "same_option bOption aOption =
     (case dot bOption ''label'' of
        Inl e \<Rightarrow> Inl e
      | Inr bl \<Rightarrow>
          (case dot aOption ''label'' of
             Inl e \<Rightarrow> Inl e
           | Inr al \<Rightarrow>
               if strict_eq bl al then
                 (case dot bOption ''value'' of
                    Inl e \<Rightarrow> Inl e
                  | Inr bv \<Rightarrow>
                      (case dot aOption ''value'' of
                         Inl e \<Rightarrow> Inl e
                       | Inr av \<Rightarrow> Inr (strict_eq bv av)))
               else Inr False))"

text \<open>\<^verbatim>\<open>b.find(...)\<close>: the first element the callback accepts, or \<^verbatim>\<open>undefined\<close>.\<close>

fun find_option :: "'n json \<Rightarrow> 'n json list \<Rightarrow> error + 'n json option" where
  "find_option aOption [] = Inr None"
| "find_option aOption (bOption # bs) =
     (case same_option bOption aOption of
        Inl e \<Rightarrow> Inl e
      | Inr True \<Rightarrow> Inr (Some bOption)
      | Inr False \<Rightarrow> find_option aOption bs)"

text \<open>
  \<^verbatim>\<open>a.every(aOption => b.find(...))\<close> over the elements of \<open>a\<close>. \<^verbatim>\<open>every\<close> stops at the
  first falsy result, and what it tests is the element \<^verbatim>\<open>find\<close> returned. \<open>b\<close> is
  whatever the caller passed: calling \<^verbatim>\<open>find\<close> on anything but an array throws.
\<close>

fun every_option :: "('n::zero) json list \<Rightarrow> 'n json option \<Rightarrow> error + bool" where
  "every_option [] b = Inr True"
| "every_option (aOption # as) b =
     (case b of
        Some (JArr bs) \<Rightarrow>
          (case find_option aOption bs of
             Inl e \<Rightarrow> Inl e
           | Inr found \<Rightarrow> if truthy found then every_option as b else Inr False)
      | _ \<Rightarrow> Inl TypeError)"

definition shouldContainAll :: "('n::zero) json option \<Rightarrow> 'n json option \<Rightarrow> error + bool" where
  "shouldContainAll a b =
     (case a of
        Some (JArr as) \<Rightarrow> every_option as b
      | _ \<Rightarrow> Inl TypeError)"

definition validateOptions :: "('n::zero) json option \<Rightarrow> 'n json option \<Rightarrow> error + bool" where
  "validateOptions existingOptions currentOptions =
     (case shouldContainAll existingOptions currentOptions of
        Inl e \<Rightarrow> Inl e
      | Inr True \<Rightarrow> shouldContainAll currentOptions existingOptions
      | Inr False \<Rightarrow> Inr False)"

section \<open>The reconciliation engine\<close>

text \<open>
  A property definition is a parsed object. \<^verbatim>\<open>updateSchema\<close> takes the two property
  lists out of the schemas with \<^verbatim>\<open>pick\<close> and computes \<^verbatim>\<open>toDelete\<close>, \<^verbatim>\<open>toCreate\<close> and
  \<^verbatim>\<open>toUpdate\<close> from them, in this order, before it issues any request.
\<close>

type_synonym 'n property = "'n object"

text \<open>\<^verbatim>\<open>s.includes(t)\<close> on strings: \<open>t\<close> occurs in \<open>s\<close> as a contiguous run.\<close>

fun str_includes :: "string \<Rightarrow> string \<Rightarrow> bool" where
  "str_includes [] t = (t = [])"
| "str_includes (c # s) t = (prefix t (c # s) \<or> str_includes s t)"

text \<open>
  \<^verbatim>\<open>name.includes(t)\<close> on whatever the \<^verbatim>\<open>name\<close> key holds: a string searches for the
  substring, an array for an element equal to \<open>t\<close>, and every other value (\<^verbatim>\<open>undefined\<close>
  included) has no callable \<^verbatim>\<open>includes\<close>, so the call throws.
\<close>

fun js_includes :: "'n json option \<Rightarrow> string \<Rightarrow> error + bool" where
  "js_includes (Some (JStr s)) t = Inr (str_includes s t)"
| "js_includes (Some (JArr xs)) t = Inr (JStr t \<in> set xs)"
| "js_includes _ t = Inl TypeError"

text \<open>\<^verbatim>\<open>props.find((prop) => prop.name === name)\<close>.\<close>

definition find_by_name :: "'n property list \<Rightarrow> 'n json option \<Rightarrow> 'n property option" where
  "find_by_name props name = List.find (\<lambda>prop. strict_eq (member_of prop ''name'') name) props"

text \<open>\<^verbatim>\<open>xs.filter(f)\<close> with a callback that may throw: the first throw ends the filter.\<close>

fun filter_js :: "('a \<Rightarrow> error + bool) \<Rightarrow> 'a list \<Rightarrow> error + 'a list" where
  "filter_js f [] = Inr []"
| "filter_js f (x # xs) =
     (case f x of
        Inl e \<Rightarrow> Inl e
      | Inr keep \<Rightarrow>
          (case filter_js f xs of
             Inl e \<Rightarrow> Inl e
           | Inr ys \<Rightarrow> Inr (if keep then x # ys else ys)))"

text \<open>
  The callback of \<^verbatim>\<open>toDelete\<close>:
  \<^verbatim>\<open>!(name.includes("hs_") || name.includes("hubspot_")) && !updatedProperties.find(...)\<close>.
  A property \<^verbatim>\<open>find\<close> returns is an object, hence truthy.
\<close>

definition deletable :: "'n property list \<Rightarrow> 'n property \<Rightarrow> error + bool" where
  "deletable updatedProperties prop =
     (let name = member_of prop ''name'' in
      case js_includes name ''hs_'' of
        Inl e \<Rightarrow> Inl e
      | Inr True \<Rightarrow> Inr False
      | Inr False \<Rightarrow>
          (case js_includes name ''hubspot_'' of
             Inl e \<Rightarrow> Inl e
           | Inr True \<Rightarrow> Inr False
           | Inr False \<Rightarrow> Inr (find_by_name updatedProperties name = None)))"

definition toDelete :: "'n property list \<Rightarrow> 'n property list \<Rightarrow> error + 'n property list" where
  "toDelete updatedProperties currentProperties =
     filter_js (deletable updatedProperties) currentProperties"

definition toCreate :: "'n property list \<Rightarrow> 'n property list \<Rightarrow> 'n property list" where
  "toCreate updatedProperties currentProperties =
     filter (\<lambda>prop. find_by_name currentProperties (member_of prop ''name'') = None)
       updatedProperties"

text \<open>
  One step of the \<^verbatim>\<open>reduce\<close> in \<^verbatim>\<open>toUpdate\<close>, for the current key when the accumulator is
  still false: an array on the updated side goes through \<^verbatim>\<open>validateOptions\<close> together
  with whatever the existing property holds under that key, anything else through
  \<^verbatim>\<open>!==\<close>.
\<close>

definition field_changed :: "('n::zero) property \<Rightarrow> 'n property \<Rightarrow> string \<Rightarrow> error + bool" where
  "field_changed updatedProperty existingProperty currKey =
     (case member_of updatedProperty currKey of
        Some (JArr xs) \<Rightarrow>
          (case validateOptions (Some (JArr xs)) (member_of existingProperty currKey) of
             Inl e \<Rightarrow> Inl e
           | Inr same \<Rightarrow> Inr (\<not> same))
      | v \<Rightarrow> Inr (\<not> strict_eq v (member_of existingProperty currKey)))"

text \<open>
  \<^verbatim>\<open>Object.keys(updatedProperty).reduce((acc, curr) => { if (acc) return acc; ... }, false)\<close>:
  once the accumulator is true the remaining keys are passed over unread.
\<close>

fun reduce_keys :: "('n::zero) property \<Rightarrow> 'n property \<Rightarrow> string list \<Rightarrow> bool \<Rightarrow> error + bool" where
  "reduce_keys updatedProperty existingProperty [] acc = Inr acc"
| "reduce_keys updatedProperty existingProperty (currKey # keys) acc =
     (if acc then reduce_keys updatedProperty existingProperty keys acc
      else
        (case field_changed updatedProperty existingProperty currKey of
           Inl e \<Rightarrow> Inl e
         | Inr changed \<Rightarrow> reduce_keys updatedProperty existingProperty keys changed))"

definition updatable :: "('n::zero) property list \<Rightarrow> 'n property \<Rightarrow> error + bool" where
  "updatable currentProperties updatedProperty =
     (case find_by_name currentProperties (member_of updatedProperty ''name'') of
        None \<Rightarrow> Inr False
      | Some existingProperty \<Rightarrow>
          reduce_keys updatedProperty existingProperty (map fst updatedProperty) False)"

definition toUpdate :: "('n::zero) property list \<Rightarrow> 'n property list \<Rightarrow> error + 'n property list" where
  "toUpdate updatedProperties currentProperties =
     filter_js (updatable currentProperties) updatedProperties"

section \<open>Schemas, the schema index and the remote service\<close>

text \<open>
  A local file after \<^verbatim>\<open>readJSON\<close>, as far as the three commands read it: the
  \<^verbatim>\<open>name\<close>, the \<^verbatim>\<open>associations\<close> (target identifiers; a file without the key declares
  none, which is what \<^verbatim>\<open>pick(objectSchema, "associations", [])\<close> makes of it) and the
  \<^verbatim>\<open>properties\<close> (\<open>None\<close> when the file has no such key).
\<close>

record 'n local_schema =
  ls_name :: "string option"
  ls_associations :: "string list"
  ls_properties :: "'n property list option"

text \<open>
  An entry of the schema index \<^verbatim>\<open>meta\<close>, which \<^verbatim>\<open>getExistingSchemas\<close> keys by schema name.
  The entry \<^verbatim>\<open>createSchemas\<close> writes after a create holds an \<^verbatim>\<open>objectTypeId\<close> only, and
  \<^verbatim>\<open>pick(currentSchema, "properties")\<close> deletes the \<^verbatim>\<open>properties\<close> key from the entry it
  reads.
\<close>

record 'n remote_schema =
  rs_name :: "string option"
  rs_objectTypeId :: string
  rs_properties :: "'n property list option"

type_synonym 'n index = "string \<rightharpoonup> 'n remote_schema"

text \<open>
  The index is a plain object (what \<^verbatim>\<open>keyBy\<close> returns), so \<^verbatim>\<open>meta[key]\<close> finds more than
  the records: under a name that every object inherits from \<^verbatim>\<open>Object.prototype\<close> it gives
  the inherited member, a function or, for \<^verbatim>\<open>__proto__\<close>, the prototype itself. Such a
  member is truthy and has neither an \<^verbatim>\<open>objectTypeId\<close> nor \<^verbatim>\<open>properties\<close>. Of these names,
  \<^verbatim>\<open>constructor\<close> and \<^verbatim>\<open>__proto__\<close> have the shape \<^verbatim>\<open>[a-z_]+\<close> of a file's identifier.
\<close>

definition inherited_member :: "string \<Rightarrow> bool" where
  "inherited_member key =
     (key \<in> set [''constructor'', ''__proto__'', ''hasOwnProperty'', ''isPrototypeOf'',
                  ''propertyIsEnumerable'', ''toLocaleString'', ''toString'', ''valueOf'',
                  ''__defineGetter__'', ''__defineSetter__'', ''__lookupGetter__'',
                  ''__lookupSetter__''])"

datatype 'n looked_up = Own "'n remote_schema" | Inherited | Missing

definition index_get :: "'n index \<Rightarrow> string \<Rightarrow> 'n looked_up" where
  "index_get meta key =
     (case meta key of
        Some entry \<Rightarrow> Own entry
      | None \<Rightarrow> if inherited_member key then Inherited else Missing)"

record association =
  as_name :: string
  as_fromObjectTypeId :: string
  as_toObjectTypeId :: string

text \<open>
  The requests the program sends, by endpoint, with what it interpolates into the URL
  and the body it posts:
  \<^item> \<open>PostSchema\<close>: \<^verbatim>\<open>POST /crm/v3/schemas\<close>;
  \<^item> \<open>PostAssociation\<close>: \<^verbatim>\<open>POST /crm/v3/schemas/{fromObjectTypeId}/associations\<close>;
  \<^item> \<open>DeleteSchema\<close>, \<open>PurgeSchema\<close>: \<^verbatim>\<open>DELETE /crm/v3/schemas/{id}\<close> and \<^verbatim>\<open>.../purge\<close>;
  \<^item> \<open>DeleteProperty\<close>: \<^verbatim>\<open>DELETE /properties/v2/{id}/properties/named/{name}\<close>;
  \<^item> \<open>PostProperty\<close>: \<^verbatim>\<open>POST /properties/v2/{id}/properties\<close>;
  \<^item> \<open>PatchProperty\<close>: \<^verbatim>\<open>PATCH /properties/v2/{id}/properties/named/{name}\<close>.
\<close>

datatype 'n request =
    PostSchema "'n local_schema"
  | PostAssociation association
  | DeleteSchema string
  | PurgeSchema string
  | DeleteProperty string "'n json option"
  | PostProperty string "'n property"
  | PatchProperty string "'n json option" "'n property"

text \<open>The lines the program prints; \<open>ErrorObject\<close> is \<^verbatim>\<open>console.log(e)\<close>.\<close>

datatype 'n message =
    FailedToCreateSchema "string option"
  | FailedToCreateAssociation string
  | FailedToDeleteSchema string
  | Created string
  | Deleted string
  | DeletingProperty "'n json option" "string option"
  | CreatingProperty "'n json option" "string option"
  | UpdatingProperty "'n json option" "string option"
  | DoesNotExist string
  | ErrorObject

datatype 'n event = Log "'n message" | Http "'n request"

text \<open>
  The remote service decides each request, knowing everything that happened before:
  the promise is rejected, or resolved (for \<open>PostSchema\<close> with \<^verbatim>\<open>data.objectTypeId\<close>).
  A run threads the list of events so far, oldest first.
\<close>

datatype response = Rejected | Resolved string

type_synonym 'n remote = "'n event list \<Rightarrow> 'n request \<Rightarrow> response"

definition call :: "'n remote \<Rightarrow> 'n request \<Rightarrow> 'n event list \<Rightarrow> response \<times> 'n event list" where
  "call remote req h = (remote h req, h @ [Http req])"

definition say :: "'n message \<Rightarrow> 'n event list \<Rightarrow> 'n event list" where
  "say msg h = h @ [Log msg]"

definition createSchema ::
  "'n remote \<Rightarrow> 'n local_schema \<Rightarrow> 'n event list \<Rightarrow> string option \<times> 'n event list" where
  "createSchema remote objectSchema h =
     (case call remote (PostSchema objectSchema) h of
        (Resolved objectTypeId, h1) \<Rightarrow> (Some objectTypeId, h1)
      | (Rejected, h1) \<Rightarrow> (None, say (FailedToCreateSchema (ls_name objectSchema)) h1))"

definition createAssociation :: "'n remote \<Rightarrow> association \<Rightarrow> 'n event list \<Rightarrow> 'n event list" where
  "createAssociation remote assoc h =
     (case call remote (PostAssociation assoc) h of
        (Resolved d, h1) \<Rightarrow> h1
      | (Rejected, h1) \<Rightarrow> say (FailedToCreateAssociation (as_name assoc)) h1)"


section \<open>The create flow\<close>

text \<open>
  Each command first fetches the index with \<^verbatim>\<open>getExistingSchemas\<close> and matches the files
  with \<^verbatim>\<open>glob.sync\<close> and \<^verbatim>\<open>objectTypeRegex\<close>. The flows below start from there: \<open>meta\<close> is the
  fetched index, and the matched files are given as pairs of identifier and parsed
  content, every file being readable as JSON.
\<close>

text \<open>
  The first loop of \<^verbatim>\<open>createSchemas\<close>, over the matched files as pairs of identifier and
  parsed content. Each round first pushes the file's association requests, then posts
  the schema without its \<^verbatim>\<open>associations\<close>, and on a truthy \<^verbatim>\<open>objectTypeId\<close> logs and
  overwrites the index entry of the identifier.
\<close>

definition declared :: "string \<Rightarrow> 'n local_schema \<Rightarrow> association list" where
  "declared objectType objectSchema =
     map (\<lambda>toObjectTypeId.
            \<lparr>as_name = objectType @ ''_to_'' @ toObjectTypeId,
             as_fromObjectTypeId = objectType,
             as_toObjectTypeId = toObjectTypeId\<rparr>)
       (ls_associations objectSchema)"

fun create_loop ::
  "'n remote \<Rightarrow> (string \<times> 'n local_schema) list \<Rightarrow> 'n index \<Rightarrow> association list \<Rightarrow>
   'n event list \<Rightarrow> 'n index \<times> association list \<times> 'n event list" where
  "create_loop remote [] meta allAssociations h = (meta, allAssociations, h)"
| "create_loop remote ((objectType, objectSchema) # files) meta allAssociations h =
     (let allAssociations' = allAssociations @ declared objectType objectSchema in
      case createSchema remote (objectSchema\<lparr>ls_associations := []\<rparr>) h of
        (Some objectTypeId, h1) \<Rightarrow>
          if objectTypeId \<noteq> [] then
            create_loop remote files
              (meta(objectType \<mapsto>
                 \<lparr>rs_name = None, rs_objectTypeId = objectTypeId, rs_properties = None\<rparr>))
              allAssociations' (say (Created objectType) h1)
          else create_loop remote files meta allAssociations' h1
      | (None, h1) \<Rightarrow> create_loop remote files meta allAssociations' h1)"

text \<open>
  \<^verbatim>\<open>get(meta, `${id}.objectTypeId`, id)\<close>, for identifiers that \<^verbatim>\<open>lodash\<close> reads as one key
  (no \<^verbatim>\<open>.\<close> and no brackets in them). An inherited member has no \<^verbatim>\<open>objectTypeId\<close>, so under
  an inherited name \<^verbatim>\<open>get\<close> returns the default, as it does for a name the index lacks.
\<close>

definition resolve :: "'n index \<Rightarrow> string \<Rightarrow> string" where
  "resolve meta ident = (case meta ident of Some entry \<Rightarrow> rs_objectTypeId entry | None \<Rightarrow> ident)"

definition resolved :: "'n index \<Rightarrow> association \<Rightarrow> association" where
  "resolved meta assoc =
     \<lparr>as_name = as_name assoc,
      as_fromObjectTypeId = resolve meta (as_fromObjectTypeId assoc),
      as_toObjectTypeId = resolve meta (as_toObjectTypeId assoc)\<rparr>"

fun associate_loop ::
  "'n remote \<Rightarrow> 'n index \<Rightarrow> association list \<Rightarrow> 'n event list \<Rightarrow> 'n event list" where
  "associate_loop remote meta [] h = h"
| "associate_loop remote meta (assoc # allAssociations) h =
     associate_loop remote meta allAssociations
       (createAssociation remote (resolved meta assoc) h)"

definition createSchemas ::
  "'n remote \<Rightarrow> 'n index \<Rightarrow> (string \<times> 'n local_schema) list \<Rightarrow> 'n event list \<Rightarrow> 'n event list" where
  "createSchemas remote meta files h =
     (case create_loop remote files meta [] h of
        (meta', allAssociations, h1) \<Rightarrow> associate_loop remote meta' allAssociations h1)"

section \<open>The delete flow\<close>




section \<open>The update flow\<close>

text \<open>
  The three loops of \<^verbatim>\<open>updateSchema\<close>. The \<^verbatim>\<open>delete\<close> and \<^verbatim>\<open>post\<close> calls are awaited
  bare, so a rejection leaves the function as a rejected promise; the \<^verbatim>\<open>patch\<close> call has
  a \<^verbatim>\<open>catch\<close> that prints the error.
\<close>

fun delete_properties ::
  "'n remote \<Rightarrow> 'n remote_schema \<Rightarrow> 'n property list \<Rightarrow> 'n event list \<Rightarrow>
   (error + unit) \<times> 'n event list" where
  "delete_properties remote currentSchema [] h = (Inr (), h)"
| "delete_properties remote currentSchema (toDeleteProperty # rest) h =
     (case call remote
             (DeleteProperty (rs_objectTypeId currentSchema) (member_of toDeleteProperty ''name''))
             (say (DeletingProperty (member_of toDeleteProperty ''name'') (rs_name currentSchema)) h) of
        (Rejected, h1) \<Rightarrow> (Inl HttpError, h1)
      | (Resolved d, h1) \<Rightarrow> delete_properties remote currentSchema rest h1)"

fun create_properties ::
  "'n remote \<Rightarrow> 'n remote_schema \<Rightarrow> 'n property list \<Rightarrow> 'n event list \<Rightarrow>
   (error + unit) \<times> 'n event list" where
  "create_properties remote currentSchema [] h = (Inr (), h)"
| "create_properties remote currentSchema (toCreateProperty # rest) h =
     (case call remote
             (PostProperty (rs_objectTypeId currentSchema) toCreateProperty)
             (say (CreatingProperty (member_of toCreateProperty ''name'') (rs_name currentSchema)) h) of
        (Rejected, h1) \<Rightarrow> (Inl HttpError, h1)
      | (Resolved d, h1) \<Rightarrow> create_properties remote currentSchema rest h1)"

fun update_properties ::
  "'n remote \<Rightarrow> 'n remote_schema \<Rightarrow> 'n property list \<Rightarrow> 'n event list \<Rightarrow> 'n event list" where
  "update_properties remote currentSchema [] h = h"
| "update_properties remote currentSchema (toUpdateProperty # rest) h =
     (case call remote
             (PatchProperty (rs_objectTypeId currentSchema) (member_of toUpdateProperty ''name'')
                toUpdateProperty)
             (say (UpdatingProperty (member_of toUpdateProperty ''name'') (rs_name currentSchema)) h) of
        (Rejected, h1) \<Rightarrow> update_properties remote currentSchema rest (say ErrorObject h1)
      | (Resolved d, h1) \<Rightarrow> update_properties remote currentSchema rest h1)"

text \<open>
  \<^verbatim>\<open>updateSchema\<close>: the three lists are computed before the first request. A schema
  without \<^verbatim>\<open>properties\<close> on either side makes a \<^verbatim>\<open>filter\<close> or \<^verbatim>\<open>find\<close> call on
  \<^verbatim>\<open>undefined\<close> throw: on the current side at once, on the updated side in \<^verbatim>\<open>toCreate\<close>
  at the latest.
\<close>

definition reconcile ::
  "('n::zero) property list option \<Rightarrow> 'n property list option \<Rightarrow>
   error + ('n property list \<times> 'n property list \<times> 'n property list)" where
  "reconcile updatedProperties currentProperties =
     (case (updatedProperties, currentProperties) of
        (Some updated, Some current) \<Rightarrow>
          (case toDelete updated current of
             Inl e \<Rightarrow> Inl e
           | Inr del \<Rightarrow>
               (case toUpdate updated current of
                  Inl e \<Rightarrow> Inl e
                | Inr upd \<Rightarrow> Inr (del, toCreate updated current, upd)))
      | _ \<Rightarrow> Inl TypeError)"

definition updateSchema ::
  "('n::zero) remote \<Rightarrow> 'n local_schema \<Rightarrow> 'n remote_schema \<Rightarrow> 'n event list \<Rightarrow>
   (error + unit) \<times> 'n event list" where
  "updateSchema remote updatedSchema currentSchema h =
     (case reconcile (ls_properties updatedSchema) (rs_properties currentSchema) of
        Inl e \<Rightarrow> (Inl e, h)
      | Inr (del, cre, upd) \<Rightarrow>
          (case delete_properties remote currentSchema del h of
             (Inl e, h1) \<Rightarrow> (Inl e, h1)
           | (Inr u, h1) \<Rightarrow>
               (case create_properties remote currentSchema cre h1 of
                  (Inl e, h2) \<Rightarrow> (Inl e, h2)
                | (Inr u', h2) \<Rightarrow> (Inr (), update_properties remote currentSchema upd h2))))"

text \<open>
  \<^verbatim>\<open>updateSchemas\<close>. The entry handed to \<^verbatim>\<open>updateSchema\<close> is the index's own object, so
  after the call it has lost its \<^verbatim>\<open>properties\<close>. An inherited member passes the test
  \<^verbatim>\<open>!meta[objectType]\<close> and is handed to \<^verbatim>\<open>updateSchema\<close> as well, where \<^verbatim>\<open>pick\<close> finds no
  \<^verbatim>\<open>properties\<close> in it and \<^verbatim>\<open>currentProperties.filter\<close> throws before any request.
\<close>

fun updateSchemas ::
  "('n::zero) remote \<Rightarrow> 'n index \<Rightarrow> (string \<times> 'n local_schema) list \<Rightarrow> 'n event list \<Rightarrow>
   (error + unit) \<times> 'n event list" where
  "updateSchemas remote meta [] h = (Inr (), h)"
| "updateSchemas remote meta ((objectType, objectSchema) # files) h =
     (case index_get meta objectType of
        Missing \<Rightarrow> updateSchemas remote meta files (say (DoesNotExist objectType) h)
      | Inherited \<Rightarrow> (Inl TypeError, h)
      | Own currentSchema \<Rightarrow>
          (case updateSchema remote objectSchema currentSchema h of
             (Inl e, h1) \<Rightarrow> (Inl e, h1)
           | (Inr u, h1) \<Rightarrow>
               updateSchemas remote
                 (meta(objectType \<mapsto> currentSchema\<lparr>rs_properties := None\<rparr>)) files h1))"

section \<open>Notions used in the statements\<close>

subsection \<open>Options and their pairs\<close>

text \<open>
  The value an element of an option list holds under a key, when the element is not
  \<^verbatim>\<open>null\<close>; the pair an option is compared by; and the match the callback of \<^verbatim>\<open>find\<close>
  computes.
\<close>

fun field :: "'n json \<Rightarrow> string \<Rightarrow> 'n json option" where
  "field (JObj kvs) key = map_of kvs key"
| "field _ key = None"

definition option_pair :: "'n json \<Rightarrow> 'n json option \<times> 'n json option" where
  "option_pair x = (field x ''label'', field x ''value'')"

definition matches :: "'n json \<Rightarrow> 'n json \<Rightarrow> bool" where
  "matches b a =
     (strict_eq (field b ''label'') (field a ''label'') \<and>
      strict_eq (field b ''value'') (field a ''value''))"

text \<open>
  A primitive is anything but an array or an object (\<^verbatim>\<open>undefined\<close> included): the values
  \<^verbatim>\<open>===\<close> compares by content. A well-formed option is an object whose \<^verbatim>\<open>label\<close> and
  \<^verbatim>\<open>value\<close> are primitives.
\<close>

fun primitive :: "'n json option \<Rightarrow> bool" where
  "primitive (Some (JArr xs)) = False"
| "primitive (Some (JObj kvs)) = False"
| "primitive _ = True"

fun well_formed_option :: "'n json \<Rightarrow> bool" where
  "well_formed_option (JObj kvs) =
     (primitive (map_of kvs ''label'') \<and> primitive (map_of kvs ''value''))"
| "well_formed_option _ = False"

subsection \<open>Property names and the rule for deletion\<close>

text \<open>
  The rule for \<^verbatim>\<open>toDelete\<close> in two readings, for property lists whose names are
  strings: by reserved prefix, as the specification words it, and by reserved
  substring, as \<^verbatim>\<open>String.prototype.includes\<close> tests it.
\<close>

definition has_string_name :: "'n property \<Rightarrow> bool" where
  "has_string_name prop = (case member_of prop ''name'' of Some (JStr s) \<Rightarrow> True | _ \<Rightarrow> False)"

definition name_str :: "'n property \<Rightarrow> string" where
  "name_str prop = (case member_of prop ''name'' of Some (JStr s) \<Rightarrow> s | _ \<Rightarrow> [])"

definition named :: "'n property list \<Rightarrow> string \<Rightarrow> bool" where
  "named props s = list_ex (\<lambda>prop. member_of prop ''name'' = Some (JStr s)) props"

definition toDelete_by_prefix :: "'n property list \<Rightarrow> 'n property list \<Rightarrow> 'n property list" where
  "toDelete_by_prefix updatedProperties currentProperties =
     filter (\<lambda>prop. \<not> named updatedProperties (name_str prop) \<and>
                    \<not> prefix ''hs_'' (name_str prop) \<and> \<not> prefix ''hubspot_'' (name_str prop))
       currentProperties"

definition toDelete_by_substring :: "'n property list \<Rightarrow> 'n property list \<Rightarrow> 'n property list" where
  "toDelete_by_substring updatedProperties currentProperties =
     filter (\<lambda>prop. \<not> named updatedProperties (name_str prop) \<and>
                    \<not> str_includes (name_str prop) ''hs_'' \<and>
                    \<not> str_includes (name_str prop) ''hubspot_'')
       currentProperties"

subsection \<open>Applying the results of a run\<close>

text \<open>
  Modelled from the spec: the effect of a run's results on the current property list,
  which the remote service produces and the repository has no code for, as the
  idempotence property words it: the properties named in \<^verbatim>\<open>toDelete\<close> removed, those
  named in \<^verbatim>\<open>toUpdate\<close> replaced by their updated versions, those of \<^verbatim>\<open>toCreate\<close> added
  as given.
\<close>

definition apply_changes ::
  "'n property list \<Rightarrow> 'n property list \<Rightarrow> 'n property list \<Rightarrow> 'n property list \<Rightarrow> 'n property list" where
  "apply_changes currentProperties del cre upd =
     map (\<lambda>prop. case find_by_name upd (member_of prop ''name'') of
                    Some updatedProperty \<Rightarrow> updatedProperty
                  | None \<Rightarrow> prop)
       (filter (\<lambda>prop. find_by_name del (member_of prop ''name'') = None) currentProperties)
     @ cre"

text \<open>
  A property all of whose fields are primitives or lists of well-formed options: what
  compares equal to a copy of itself.
\<close>

definition plain_fields :: "'n property \<Rightarrow> bool" where
  "plain_fields p =
     list_all (\<lambda>(key, v). case v of
                  JArr xs \<Rightarrow> list_all well_formed_option xs
                | JObj kvs \<Rightarrow> False
                | _ \<Rightarrow> True) p"

subsection \<open>Requests and rejections in a list of events\<close>

text \<open>
  The requests among a list of events, in the order sent; the property operations of
  one reconciliation in the order \<^verbatim>\<open>updateSchema\<close> has its three loops; all the
  association requests a batch declares, in file order; and the schema posts of the
  batch, one per file, the schema without its \<^verbatim>\<open>associations\<close>.
\<close>

fun requests :: "'n event list \<Rightarrow> 'n request list" where
  "requests [] = []"
| "requests (Log msg # evs) = requests evs"
| "requests (Http req # evs) = req # requests evs"


definition all_declared :: "(string \<times> 'n local_schema) list \<Rightarrow> association list" where
  "all_declared files = concat (map (\<lambda>(objectType, objectSchema). declared objectType objectSchema) files)"

definition schema_posts :: "(string \<times> 'n local_schema) list \<Rightarrow> 'n request list" where
  "schema_posts files =
     map (\<lambda>(objectType, objectSchema). PostSchema (objectSchema\<lparr>ls_associations := []\<rparr>)) files"

text \<open>
  Rejections in a list of events, each request judged at the events before it (\<open>h\<close> is
  what came before the list). The requests that \<^verbatim>\<open>updateSchema\<close> awaits without a handler
  are the property deletes and creates. In a \<open>handled\<close> list every rejected request is
  a caught one, with the error printed next; a list that \<open>stops\<close> may also hold a rejected
  property delete or create, as the last event of a failed run; \<open>ends_rejected\<close> says the
  last event is such a request.
\<close>

fun aborting :: "'n request \<Rightarrow> bool" where
  "aborting (DeleteProperty objectTypeId name) = True"
| "aborting (PostProperty objectTypeId p) = True"
| "aborting _ = False"

fun error_logged :: "'n event list \<Rightarrow> bool" where
  "error_logged (Log ErrorObject # evs) = True"
| "error_logged _ = False"

fun handled :: "'n remote \<Rightarrow> 'n event list \<Rightarrow> 'n event list \<Rightarrow> bool" where
  "handled remote h [] = True"
| "handled remote h (Log msg # evs) = handled remote (h @ [Log msg]) evs"
| "handled remote h (Http req # evs) =
     ((remote h req = Rejected \<longrightarrow> \<not> aborting req \<and> error_logged evs)
      \<and> handled remote (h @ [Http req]) evs)"

fun stops :: "'n remote \<Rightarrow> 'n event list \<Rightarrow> 'n event list \<Rightarrow> bool \<Rightarrow> bool" where
  "stops remote h [] failed = True"
| "stops remote h (Log msg # evs) failed = stops remote (h @ [Log msg]) evs failed"
| "stops remote h (Http req # evs) failed =
     ((remote h req = Rejected \<longrightarrow>
         (if aborting req then evs = [] \<and> failed else error_logged evs))
      \<and> stops remote (h @ [Http req]) evs failed)"

fun ends_rejected :: "'n remote \<Rightarrow> 'n event list \<Rightarrow> 'n event list \<Rightarrow> bool" where
  "ends_rejected remote h [] = False"
| "ends_rejected remote h (Log msg # evs) = ends_rejected remote (h @ [Log msg]) evs"
| "ends_rejected remote h (Http req # evs) =
     (if evs = [] then aborting req \<and> remote h req = Rejected
      else ends_rejected remote (h @ [Http req]) evs)"

definition run_outcome ::
  "'n remote \<Rightarrow> 'n event list \<Rightarrow> 'n event list \<Rightarrow> error + unit \<Rightarrow> bool" where
  "run_outcome remote h evs res =
     (if res = Inl HttpError then stops remote h evs True \<and> ends_rejected remote h evs
      else handled remote h evs)"

text \<open>
  The lines and requests an update run has before it when no request is rejected, and
  the events of a run apart from the errors it printed. For a property, \<^verbatim>\<open>updateSchema\<close>
  prints a line and sends a request: the deletes, then the creates, then the updates.
  For a batch, a file whose identifier the index does not know has the one line
  \<^verbatim>\<open>does not exist\<close>; a file the index knows has the events of its reconciliation, and
  the later files follow with the index entry stripped of its properties; the plan ends
  where the run ends whatever the service answers, at a reconciliation that throws and
  at an identifier that resolves to an inherited member.
\<close>

fun is_error_line :: "'n event \<Rightarrow> bool" where
  "is_error_line (Log ErrorObject) = True"
| "is_error_line _ = False"

definition without_errors :: "'n event list \<Rightarrow> 'n event list" where
  "without_errors evs = filter (\<lambda>e. \<not> is_error_line e) evs"

definition schema_events ::
  "'n remote_schema \<Rightarrow> 'n property list \<Rightarrow> 'n property list \<Rightarrow> 'n property list \<Rightarrow> 'n event list" where
  "schema_events currentSchema del cre upd =
     concat (map (\<lambda>p. [Log (DeletingProperty (member_of p ''name'') (rs_name currentSchema)),
                        Http (DeleteProperty (rs_objectTypeId currentSchema) (member_of p ''name''))])
               del)
     @ concat (map (\<lambda>p. [Log (CreatingProperty (member_of p ''name'') (rs_name currentSchema)),
                          Http (PostProperty (rs_objectTypeId currentSchema) p)])
                 cre)
     @ concat (map (\<lambda>p. [Log (UpdatingProperty (member_of p ''name'') (rs_name currentSchema)),
                          Http (PatchProperty (rs_objectTypeId currentSchema) (member_of p ''name'') p)])
                 upd)"

fun planned :: "('n::zero) index \<Rightarrow> (string \<times> 'n local_schema) list \<Rightarrow> 'n event list" where
  "planned meta [] = []"
| "planned meta ((objectType, objectSchema) # files) =
     (case index_get meta objectType of
        Missing \<Rightarrow> Log (DoesNotExist objectType) # planned meta files
      | Inherited \<Rightarrow> []
      | Own currentSchema \<Rightarrow>
          (case reconcile (ls_properties objectSchema) (rs_properties currentSchema) of
             Inl e \<Rightarrow> []
           | Inr (del, cre, upd) \<Rightarrow>
               schema_events currentSchema del cre upd
               @ planned (meta(objectType \<mapsto> currentSchema\<lparr>rs_properties := None\<rparr>)) files))"

section \<open>Scenarios\<close>

text \<open>
  The options \<^verbatim>\<open>A\<close> and \<^verbatim>\<open>B\<close> of the \<^verbatim>\<open>status\<close> property, and the properties the
  scenarios are made of. \<^verbatim>\<open>paths_count\<close> has \<^verbatim>\<open>hs_\<close> inside its name; \<^verbatim>\<open>status_bare\<close>,
  \<^verbatim>\<open>tier_remote\<close> and \<^verbatim>\<open>tier_bare\<close> have no \<^verbatim>\<open>options\<close>; \<^verbatim>\<open>foo_a\<close> and \<^verbatim>\<open>foo_b\<close> share a
  name.
\<close>

definition optA :: "int json" where
  "optA = JObj [(''label'', JStr ''A''), (''value'', JStr ''a'')]"

definition optB :: "int json" where
  "optB = JObj [(''label'', JStr ''B''), (''value'', JStr ''b'')]"

definition foo :: "int property" where
  "foo = [(''name'', JStr ''foo''), (''type'', JStr ''string'')]"

definition foo_relabelled :: "int property" where
  "foo_relabelled = [(''name'', JStr ''foo''), (''type'', JStr ''string''), (''label'', JStr ''Foo'')]"

definition foo_a :: "int property" where
  "foo_a = [(''name'', JStr ''foo''), (''label'', JStr ''A'')]"

definition foo_b :: "int property" where
  "foo_b = [(''name'', JStr ''foo''), (''label'', JStr ''B'')]"

definition legacy_field :: "int property" where
  "legacy_field = [(''name'', JStr ''legacy_field''), (''type'', JStr ''string'')]"

definition hs_object_id :: "int property" where
  "hs_object_id = [(''name'', JStr ''hs_object_id''), (''type'', JStr ''number'')]"

definition paths_count :: "int property" where
  "paths_count = [(''name'', JStr ''paths_count''), (''type'', JStr ''number'')]"

definition amount :: "int property" where
  "amount = [(''name'', JStr ''amount''), (''type'', JStr ''number''), (''displayOrder'', JNum 2)]"

definition status_local :: "int property" where
  "status_local = [(''name'', JStr ''status''), (''options'', JArr [optA, optB])]"

definition status_remote :: "int property" where
  "status_remote = [(''name'', JStr ''status''), (''options'', JArr [optB, optA])]"

definition status_bare :: "int property" where
  "status_bare = [(''name'', JStr ''status'')]"

definition tier_local :: "int property" where
  "tier_local = [(''name'', JStr ''tier''), (''options'', JArr [])]"

definition tier_remote :: "int property" where
  "tier_remote = [(''name'', JStr ''tier''), (''label'', JStr ''Tier'')]"

definition tier_bare :: "int property" where
  "tier_bare = [(''name'', JStr ''tier'')]"

text \<open>
  A schema index with the one record \<^verbatim>\<open>deal\<close> and an empty one; the local files; and the
  events of updating \<^verbatim>\<open>deal\<close> from \<^verbatim>\<open>deal_file\<close> when every request is resolved.
\<close>

definition deal_entry :: "int remote_schema" where
  "deal_entry = \<lparr>rs_name = Some ''deal'', rs_objectTypeId = ''2-101'',
                 rs_properties = Some [foo, legacy_field, hs_object_id]\<rparr>"

definition deal_index :: "int index" where
  "deal_index = [''deal'' \<mapsto> deal_entry]"

definition no_index :: "int index" where
  "no_index = Map.empty"

definition contact_custom_file :: "int local_schema" where
  "contact_custom_file =
     \<lparr>ls_name = Some ''contact_custom'', ls_associations = [], ls_properties = Some [foo]\<rparr>"

definition deal_file :: "int local_schema" where
  "deal_file =
     \<lparr>ls_name = Some ''deal'', ls_associations = [],
      ls_properties = Some [foo_relabelled, amount]\<rparr>"


definition deal_assoc_file :: "int local_schema" where
  "deal_assoc_file =
     \<lparr>ls_name = Some ''deal'', ls_associations = [''contact''], ls_properties = Some [foo]\<rparr>"



definition rejecting :: "int remote" where
  "rejecting h req = Rejected"

definition rejecting_posts :: "int remote" where
  "rejecting_posts h req = (case req of PostProperty i p \<Rightarrow> Rejected | _ \<Rightarrow> Resolved [])"

definition rejecting_patches :: "int remote" where
  "rejecting_patches h req = (case req of PatchProperty i n p \<Rightarrow> Rejected | _ \<Rightarrow> Resolved [])"


text \<open>
  A second file for the \<^verbatim>\<open>deal\<close> schema that changes the label of two properties the
  schema has, and the events of updating it, then a file the index does not know, at a
  service that rejects every property update.
\<close>

definition legacy_relabelled :: "int property" where
  "legacy_relabelled =
     [(''name'', JStr ''legacy_field''), (''type'', JStr ''string''), (''label'', JStr ''Legacy'')]"

definition deal_patch_file :: "int local_schema" where
  "deal_patch_file =
     \<lparr>ls_name = Some ''deal'', ls_associations = [],
      ls_properties = Some [foo_relabelled, legacy_relabelled]\<rparr>"

definition patch_events :: "int event list" where
  "patch_events =
     [Log (UpdatingProperty (Some (JStr ''foo'')) (Some ''deal'')),
      Http (PatchProperty ''2-101'' (Some (JStr ''foo'')) foo_relabelled),
      Log ErrorObject,
      Log (UpdatingProperty (Some (JStr ''legacy_field'')) (Some ''deal'')),
      Http (PatchProperty ''2-101'' (Some (JStr ''legacy_field'')) legacy_relabelled),
      Log ErrorObject,
      Log (DoesNotExist ''contact_custom'')]"

section \<open>Option-list comparison: what it computes\<close>

lemma dot_field: "x \<noteq> JNull \<Longrightarrow> dot x key = Inr (field x key)"
  by (cases x) simp_all

lemma same_option_matches: "b \<noteq> JNull \<Longrightarrow> a \<noteq> JNull \<Longrightarrow> same_option b a = Inr (matches b a)"
  by (simp add: same_option_def dot_field matches_def)

lemma find_option_find:
  "JNull \<notin> set bs \<Longrightarrow> a \<noteq> JNull \<Longrightarrow> find_option a bs = Inr (List.find (\<lambda>b. matches b a) bs)"
  by (induction bs) (auto simp: same_option_matches)

lemma every_option_all:
  "JNull \<notin> set as \<Longrightarrow> JNull \<notin> set bs \<Longrightarrow>
   every_option as (Some (JArr bs)) = Inr (list_all (\<lambda>a. truthy (List.find (\<lambda>b. matches b a) bs)) as)"
  by (induction as) (auto simp: find_option_find)

lemma validateOptions_arrays:
  "JNull \<notin> set as \<Longrightarrow> JNull \<notin> set bs \<Longrightarrow>
   validateOptions (Some (JArr as)) (Some (JArr bs)) =
     Inr (list_all (\<lambda>a. truthy (List.find (\<lambda>b. matches b a) bs)) as \<and>
          list_all (\<lambda>b. truthy (List.find (\<lambda>a. matches a b) as)) bs)"
  by (auto simp: validateOptions_def shouldContainAll_def every_option_all split: bool.splits)

lemma strict_eq_sym: "strict_eq x y = strict_eq y x"
  by (induction x y rule: strict_eq.induct) auto

lemma strict_eq_refl:
  assumes "primitive x" shows "strict_eq x x"
proof (cases x)
  case None
  then show ?thesis by simp
next
  case (Some v)
  then show ?thesis using assms by (cases v) simp_all
qed

lemma wf_not_null: "list_all well_formed_option xs \<Longrightarrow> JNull \<notin> set xs"
  by (induction xs) auto

lemma wf_truthy: "well_formed_option x \<Longrightarrow> truthy (Some x)"
  by (cases x) auto

lemma find_truthy:
  "list_all well_formed_option bs \<Longrightarrow> \<exists>b\<in>set bs. P b \<Longrightarrow> truthy (List.find P bs)"
  by (induction bs) (auto simp: wf_truthy)

lemma find_truthy_iff:
  "list_all well_formed_option bs \<Longrightarrow> truthy (List.find P bs) = (\<exists>b\<in>set bs. P b)"
  by (induction bs) (auto simp: wf_truthy)

lemma strict_eq_eq: "primitive x \<Longrightarrow> strict_eq x y = (x = y)"
  by (induction x y rule: strict_eq.induct) auto

lemma wf_prims: "well_formed_option a \<Longrightarrow> primitive (field a ''label'') \<and> primitive (field a ''value'')"
  by (cases a) auto

lemma wf_matches: "well_formed_option b \<Longrightarrow> matches b a = (option_pair b = option_pair a)"
  by (auto simp: matches_def option_pair_def strict_eq_eq dest: wf_prims)

lemma image_subset_ex: "(\<forall>a\<in>A. \<exists>b\<in>B. f b = f a) = (f ` A \<subseteq> f ` B)"
  by (auto simp: image_iff subset_iff) metis+

lemma validateOptions_wf:
  assumes "list_all well_formed_option as" "list_all well_formed_option bs"
  shows "validateOptions (Some (JArr as)) (Some (JArr bs)) =
     Inr (option_pair ` set as = option_pair ` set bs)"
proof -
  have 1: "list_all (\<lambda>a. truthy (List.find (\<lambda>b. matches b a) bs)) as = (option_pair ` set as \<subseteq> option_pair ` set bs)"
    using assms by (simp add: find_truthy_iff list_all_iff wf_matches image_subset_ex)
  have 2: "list_all (\<lambda>b. truthy (List.find (\<lambda>a. matches a b) as)) bs = (option_pair ` set bs \<subseteq> option_pair ` set as)"
    using assms by (simp add: find_truthy_iff list_all_iff wf_matches image_subset_ex)
  show ?thesis
    using assms by (auto simp: validateOptions_arrays wf_not_null 1 2)
qed

lemma validateOptions_sym:
  "JNull \<notin> set as \<Longrightarrow> JNull \<notin> set bs \<Longrightarrow>
   validateOptions (Some (JArr as)) (Some (JArr bs)) = validateOptions (Some (JArr bs)) (Some (JArr as))"
  by (auto simp: validateOptions_arrays)

lemma member_of_Cons: "member_of ((k, v) # obj) key = (if key = k then Some v else member_of obj key)"
  by (simp add: member_of_def)

lemma member_of_Nil: "member_of [] key = None"
  by (simp add: member_of_def)

lemma permuted_options_unchanged:
  assumes "list_all well_formed_option as" "set as = set bs"
  shows "toUpdate [[(''name'', JStr n), (''options'', JArr as)]] [[(''name'', JStr n), (''options'', JArr bs)]] = Inr []"
proof -
  have wf: "list_all well_formed_option bs" using assms by (simp add: list_all_iff)
  have v: "validateOptions (Some (JArr as)) (Some (JArr bs)) = Inr True"
    using assms wf by (simp add: validateOptions_wf)
  show ?thesis
    by (simp add: toUpdate_def updatable_def find_by_name_def member_of_Cons member_of_Nil field_changed_def v)
qed


text \<open>
  Claim C3. The option-list comparison is symmetric on lists without \<^verbatim>\<open>null\<close> elements,
  true of a well-formed list compared with itself, and true of two well-formed lists
  that hold the same label and value pairs in whatever order; so a property whose
  options are the same in another order on the remote side gives an empty \<^verbatim>\<open>toUpdate\<close>.
\<close>

theorem validateOptions_equivalence:
  "(JNull \<notin> set as \<and> JNull \<notin> set bs \<longrightarrow>
      validateOptions (Some (JArr as)) (Some (JArr bs)) = validateOptions (Some (JArr bs)) (Some (JArr as)))
   \<and> (list_all well_formed_option as \<longrightarrow> validateOptions (Some (JArr as)) (Some (JArr as)) = Inr True)
   \<and> (list_all well_formed_option as \<and> list_all well_formed_option bs \<and>
        option_pair ` set as = option_pair ` set bs \<longrightarrow>
      validateOptions (Some (JArr as)) (Some (JArr bs)) = Inr True)
   \<and> (list_all well_formed_option as \<and> set as = set bs \<longrightarrow>
      toUpdate [[(''name'', JStr n), (''options'', JArr as)]]
               [[(''name'', JStr n), (''options'', JArr bs)]] = Inr [])"
  using validateOptions_sym [of as bs] validateOptions_wf [of as as] validateOptions_wf [of as bs]
    permuted_options_unchanged [of as bs n]
  by simp

theorem validateOptions_equivalence_witness:
  "validateOptions (Some (JArr [optA, optB])) (Some (JArr [optB, optA])) =
     validateOptions (Some (JArr [optB, optA])) (Some (JArr [optA, optB]))
   \<and> validateOptions (Some (JArr [optA, optB])) (Some (JArr [optA, optB])) = Inr True
   \<and> validateOptions (Some (JArr [optA, optB])) (Some (JArr [optB, optA])) = Inr True
   \<and> toUpdate [[(''name'', JStr ''status''), (''options'', JArr [optA, optB])]]
               [[(''name'', JStr ''status''), (''options'', JArr [optB, optA])]] = Inr []"
proof -
  have nn: "JNull \<notin> set [optA, optB] \<and> JNull \<notin> set [optB, optA]"
    by (simp add: optA_def optB_def)
  have wf: "list_all well_formed_option [optA, optB]" "list_all well_formed_option [optB, optA]"
    by (simp_all add: optA_def optB_def)
  have same: "set [optA, optB] = set [optB, optA]"
    by auto
  then have pairs: "option_pair ` set [optA, optB] = option_pair ` set [optB, optA]"
    by simp
  show ?thesis
    using validateOptions_equivalence [of "[optA, optB]" "[optB, optA]" "''status''"]
      nn wf same pairs
    by blast
qed

section \<open>The deletion list\<close>

lemma filter_js_total: "(\<And>x. x \<in> set xs \<Longrightarrow> f x = Inr (g x)) \<Longrightarrow> filter_js f xs = Inr (filter g xs)"
  by (induction xs) auto

lemma filter_js_Inr:
  "filter_js f xs = Inr ys \<Longrightarrow> ys = filter (\<lambda>x. f x = Inr True) xs \<and> (\<forall>x\<in>set xs. \<exists>b. f x = Inr b)"
  by (induction xs arbitrary: ys) (auto split: sum.splits if_splits)

lemma filter_js_Inl:
  "x \<in> set xs \<Longrightarrow> f x = Inl e \<Longrightarrow> \<exists>e'. filter_js f xs = Inl e'"
  by (induction xs) (auto split: sum.splits)

lemma filter_js_Inl_D:
  "filter_js f xs = Inl e \<Longrightarrow> \<exists>x\<in>set xs. f x = Inl e"
  by (induction xs) (auto split: sum.splits)

lemma strict_eq_JStr: "strict_eq x (Some (JStr s)) = (x = Some (JStr s))"
proof (cases x)
  case None
  then show ?thesis by simp
next
  case (Some v)
  then show ?thesis by (cases v) auto
qed

lemma find_by_name_None: "(find_by_name props (Some (JStr s)) = None) = (\<not> named props s)"
  by (auto simp: find_by_name_def find_None_iff named_def list_ex_iff strict_eq_JStr)

lemma deletable_string:
  "member_of prop ''name'' = Some (JStr s) \<Longrightarrow>
   deletable upd prop = Inr (\<not> str_includes s ''hs_'' \<and> \<not> str_includes s ''hubspot_'' \<and> \<not> named upd s)"
  by (auto simp: deletable_def Let_def find_by_name_None split: bool.splits)

lemma has_string_nameD: "has_string_name prop \<Longrightarrow> member_of prop ''name'' = Some (JStr (name_str prop))"
  by (auto simp: has_string_name_def name_str_def split: option.splits json.splits)

lemma toDelete_string_names:
  assumes "list_all has_string_name cur"
  shows "toDelete upd cur = Inr (toDelete_by_substring upd cur)"
proof -
  have "deletable upd p =
          Inr (\<not> named upd (name_str p) \<and> \<not> str_includes (name_str p) ''hs_'' \<and>
               \<not> str_includes (name_str p) ''hubspot_'')"
    if "p \<in> set cur" for p
    using that assms deletable_string [OF has_string_nameD, of p upd]
    by (auto simp: list_all_iff)
  then show ?thesis
    unfolding toDelete_def toDelete_by_substring_def by (rule filter_js_total)
qed

lemma prefix_str_includes: "prefix t s \<Longrightarrow> str_includes s t"
  by (cases s) auto

lemma toDelete_never_reserved:
  assumes "toDelete upd cur = Inr del" "p \<in> set del" "member_of p ''name'' = Some (JStr s)"
  shows "\<not> prefix ''hs_'' s \<and> \<not> prefix ''hubspot_'' s"
proof -
  from assms(1,2) have "deletable upd p = Inr True"
    unfolding toDelete_def by (auto dest!: filter_js_Inr)
  with assms(3) have "\<not> str_includes s ''hs_'' \<and> \<not> str_includes s ''hubspot_''"
    by (simp add: deletable_string)
  then show ?thesis using prefix_str_includes by blast
qed

text \<open>
  Claim C1, as amended. For a current property list whose names are strings, \<^verbatim>\<open>toDelete\<close>
  holds exactly the current properties whose name no updated property has and in which
  neither \<^verbatim>\<open>hs_\<close> nor \<^verbatim>\<open>hubspot_\<close> occurs anywhere; and whatever the lists, a property
  in \<^verbatim>\<open>toDelete\<close> with a string name does not begin with \<^verbatim>\<open>hs_\<close> or \<^verbatim>\<open>hubspot_\<close>.
\<close>

theorem toDelete_spec:
  "(list_all has_string_name cur \<longrightarrow> toDelete upd cur = Inr (toDelete_by_substring upd cur))
   \<and> (toDelete upd cur = Inr del \<and> p \<in> set del \<and> member_of p ''name'' = Some (JStr s) \<longrightarrow>
        \<not> prefix ''hs_'' s \<and> \<not> prefix ''hubspot_'' s)"
  using toDelete_string_names [of cur upd] toDelete_never_reserved [of upd cur del p s]
  by blast

theorem toDelete_spec_witness:
  "list_all has_string_name [foo, legacy_field, hs_object_id]
   \<and> toDelete [foo] [foo, legacy_field, hs_object_id] = Inr [legacy_field]
   \<and> \<not> prefix ''hs_'' ''legacy_field'' \<and> \<not> prefix ''hubspot_'' ''legacy_field''"
proof -
  have names: "list_all has_string_name [foo, legacy_field, hs_object_id]"
    by (simp add: has_string_name_def foo_def legacy_field_def hs_object_id_def member_of_Cons)
  have sub: "toDelete_by_substring [foo] [foo, legacy_field, hs_object_id] = [legacy_field]"
    by (simp add: toDelete_by_substring_def named_def name_str_def foo_def legacy_field_def
        hs_object_id_def member_of_Cons member_of_Nil)
  have n: "member_of legacy_field ''name'' = Some (JStr ''legacy_field'')"
    by (simp add: legacy_field_def member_of_Cons)
  note t = toDelete_spec [where cur = "[foo, legacy_field, hs_object_id]" and upd = "[foo]"
      and del = "[legacy_field]" and p = legacy_field and s = "''legacy_field''"]
  from t names sub have d: "toDelete [foo] [foo, legacy_field, hs_object_id] = Inr [legacy_field]"
    by simp
  from t d n have "\<not> prefix ''hs_'' ''legacy_field'' \<and> \<not> prefix ''hubspot_'' ''legacy_field''"
    by simp
  with names d show ?thesis by blast
qed

text \<open>
  The claim as stated fails: \<^verbatim>\<open>paths_count\<close> exists only remotely and does not begin with
  a reserved prefix, so the rule by prefix deletes it, but \<^verbatim>\<open>hs_\<close> occurs inside the name
  and \<^verbatim>\<open>toDelete\<close> leaves it out.
\<close>

theorem toDelete_prefix_counterexample:
  "toDelete [] [paths_count] = Inr []
   \<and> toDelete_by_prefix [] [paths_count] = [paths_count]"
  by (simp add: toDelete_def deletable_def toDelete_by_prefix_def named_def name_str_def
      paths_count_def member_of_Cons member_of_Nil)

section \<open>The update list\<close>

lemma dot_error: "dot x key = Inl e \<Longrightarrow> e = TypeError"
  by (cases x) auto

lemma same_option_error: "same_option b a = Inl e \<Longrightarrow> e = TypeError"
  by (auto simp: same_option_def split: sum.splits if_splits dest: dot_error)

lemma find_option_error: "find_option a bs = Inl e \<Longrightarrow> e = TypeError"
  by (induction bs) (auto split: sum.splits bool.splits dest: same_option_error)

lemma every_option_error: "every_option as b = Inl e \<Longrightarrow> e = TypeError"
  by (induction as) (auto split: sum.splits option.splits json.splits if_splits dest: find_option_error)

lemma shouldContainAll_error: "shouldContainAll a b = Inl e \<Longrightarrow> e = TypeError"
  by (auto simp: shouldContainAll_def split: option.splits json.splits dest: every_option_error)

lemma validateOptions_error: "validateOptions a b = Inl e \<Longrightarrow> e = TypeError"
  by (auto simp: validateOptions_def split: sum.splits bool.splits dest: shouldContainAll_error)

lemma field_changed_error: "field_changed u ex k = Inl e \<Longrightarrow> e = TypeError"
  by (auto simp: field_changed_def split: option.splits json.splits sum.splits dest: validateOptions_error)

lemma reduce_keys_error: "reduce_keys u ex ks acc = Inl e \<Longrightarrow> e = TypeError"
  by (induction ks arbitrary: acc) (auto split: if_splits sum.splits dest: field_changed_error)

lemma updatable_error: "updatable cur u = Inl e \<Longrightarrow> e = TypeError"
  by (auto simp: updatable_def split: option.splits dest: reduce_keys_error)

lemma toUpdate_error: "toUpdate upd cur = Inl e \<Longrightarrow> e = TypeError"
  unfolding toUpdate_def by (auto dest!: filter_js_Inl_D dest: updatable_error)

lemma validateOptions_not_array:
  assumes "\<forall>ys. v \<noteq> Some (JArr ys)"
  shows "validateOptions (Some (JArr xs)) v = Inl TypeError"
proof (cases xs)
  case Nil
  then show ?thesis
    using assms by (auto simp: validateOptions_def shouldContainAll_def split: option.splits json.splits)
next
  case (Cons x xs')
  then show ?thesis
    using assms by (auto simp: validateOptions_def shouldContainAll_def split: option.splits json.splits)
qed

lemma field_changed_not_array:
  "member_of u k = Some (JArr xs) \<Longrightarrow> \<forall>ys. member_of ex k \<noteq> Some (JArr ys) \<Longrightarrow>
   field_changed u ex k = Inl TypeError"
  by (simp add: field_changed_def validateOptions_not_array)

lemma reduce_keys_append:
  "\<forall>k\<in>set pre. field_changed u ex k = Inr False \<Longrightarrow>
   reduce_keys u ex (pre @ ks) False = reduce_keys u ex ks False"
  by (induction pre) auto

lemma member_of_key: "member_of u k = Some v \<Longrightarrow> k \<in> set (map fst u)"
  unfolding member_of_def by (metis map_of_eq_None_iff option.distinct(1) set_map)

lemma reduce_keys_throws:
  assumes "member_of u k = Some (JArr xs)" "\<forall>ys. member_of ex k \<noteq> Some (JArr ys)"
    and "\<forall>k'\<in>set (takeWhile (\<lambda>k'. k' \<noteq> k) (map fst u)). field_changed u ex k' = Inr False"
  shows "reduce_keys u ex (map fst u) False = Inl TypeError"
proof -
  let ?ks = "map fst u"
  have "k \<in> set ?ks" using assms(1) by (rule member_of_key)
  then have "dropWhile (\<lambda>k'. k' \<noteq> k) ?ks = k # tl (dropWhile (\<lambda>k'. k' \<noteq> k) ?ks)"
    by (metis (mono_tags, lifting) dropWhile_eq_Nil_conv hd_dropWhile list.collapse)
  then have "?ks = takeWhile (\<lambda>k'. k' \<noteq> k) ?ks @ k # tl (dropWhile (\<lambda>k'. k' \<noteq> k) ?ks)"
    by (metis takeWhile_dropWhile_id)
  then have "reduce_keys u ex ?ks False =
      reduce_keys u ex (k # tl (dropWhile (\<lambda>k'. k' \<noteq> k) ?ks)) False"
    using reduce_keys_append [OF assms(3)] by metis
  then show ?thesis
    using field_changed_not_array [OF assms(1,2)] by simp
qed

text \<open>
  Claim C9. \<^verbatim>\<open>toUpdate\<close> is not total: when an updated property has a current property
  of its name, holds an array under some key that the current property lacks, and no
  earlier key of it has changed, the comparison reaches \<^verbatim>\<open>validateOptions\<close> with
  \<^verbatim>\<open>undefined\<close> as second argument and the whole computation throws a TypeError.
\<close>

theorem toUpdate_throws:
  assumes "u \<in> set upd"
    and "find_by_name cur (member_of u ''name'') = Some ex"
    and "member_of u k = Some (JArr xs)"
    and "member_of ex k = None"
    and "\<forall>k'\<in>set (takeWhile (\<lambda>k'. k' \<noteq> k) (map fst u)). field_changed u ex k' = Inr False"
  shows "toUpdate upd cur = Inl TypeError"
proof -
  have "\<forall>ys. member_of ex k \<noteq> Some (JArr ys)" using assms(4) by simp
  then have "updatable cur u = Inl TypeError"
    using assms by (simp add: updatable_def reduce_keys_throws)
  then obtain e where "toUpdate upd cur = Inl e"
    unfolding toUpdate_def using assms(1) filter_js_Inl by metis
  then show ?thesis using toUpdate_error by metis
qed

theorem toUpdate_throws_witness:
  "toUpdate [status_local] [status_bare] = Inl TypeError
   \<and> member_of status_local ''options'' = Some (JArr [optA, optB])
   \<and> member_of status_bare ''options'' = None"
proof -
  have 1: "status_local \<in> set [status_local]" by simp
  have 2: "find_by_name [status_bare] (member_of status_local ''name'') = Some status_bare"
    by (simp add: find_by_name_def status_local_def status_bare_def member_of_Cons)
  have 3: "member_of status_local ''options'' = Some (JArr [optA, optB])"
    by (simp add: status_local_def member_of_Cons)
  have 4: "member_of status_bare ''options'' = None"
    by (simp add: status_bare_def member_of_Cons member_of_Nil)
  have 5: "\<forall>k'\<in>set (takeWhile (\<lambda>k'. k' \<noteq> ''options'') (map fst status_local)).
             field_changed status_local status_bare k' = Inr False"
    by (simp add: status_local_def status_bare_def field_changed_def member_of_Cons)
  show ?thesis
    using toUpdate_throws [OF 1 2 3 4 5] 3 4 by simp
qed

lemma member_of_in: "member_of p k = Some v \<Longrightarrow> (k, v) \<in> set p"
  unfolding member_of_def by (rule map_of_SomeD)

lemma field_changed_missing:
  assumes "member_of u k = Some v" "\<forall>xs. v \<noteq> JArr xs" "member_of ex k = None"
  shows "field_changed u ex k = Inr True"
  using assms by (cases v) (simp_all add: field_changed_def)

text \<open>
  Claim C2, at the input where the code falls short of it. The claim lists an updated
  property as soon as one of its fields differs from the field of that name in the
  current property. With the updated \<^verbatim>\<open>tier\<close> holding an (empty) option list and the
  current \<^verbatim>\<open>tier\<close> holding no \<^verbatim>\<open>options\<close>, \<^verbatim>\<open>toUpdate\<close> throws a TypeError and lists nothing;
  a field that is not an array and is missing from the current property (the \<^verbatim>\<open>label\<close> of
  \<^verbatim>\<open>tier\<close> against a bare \<^verbatim>\<open>tier\<close>) does list the property, as the claim says.
\<close>

theorem toUpdate_missing_options:
  "toUpdate [tier_local] [tier_remote] = Inl TypeError
   \<and> member_of tier_local ''options'' = Some (JArr [])
   \<and> member_of tier_remote ''options'' = None
   \<and> toUpdate [tier_remote] [tier_bare] = Inr [tier_remote]"
  by (simp add: toUpdate_def updatable_def field_changed_def validateOptions_def
      shouldContainAll_def find_by_name_def tier_local_def tier_remote_def tier_bare_def
      member_of_Cons member_of_Nil)

section \<open>Reconciling twice\<close>

lemma find_by_name_string:
  "find_by_name ps (Some (JStr s)) = List.find (\<lambda>p. member_of p ''name'' = Some (JStr s)) ps"
  by (simp add: find_by_name_def strict_eq_JStr)

lemma find_by_name_SomeD:
  "find_by_name ps (Some (JStr s)) = Some p \<Longrightarrow> p \<in> set ps \<and> member_of p ''name'' = Some (JStr s)"
  by (auto simp: find_by_name_string find_Some_iff)

lemma find_by_name_Some_named:
  "(\<exists>p. find_by_name ps (Some (JStr s)) = Some p) = named ps s"
  using find_by_name_None [of ps s] by auto

lemma named_iff: "named ps s = (\<exists>p\<in>set ps. member_of p ''name'' = Some (JStr s))"
  by (simp add: named_def list_ex_iff)

lemma toCreate_string_names:
  assumes "list_all has_string_name upd"
  shows "toCreate upd cur = filter (\<lambda>u. \<not> named cur (name_str u)) upd"
  unfolding toCreate_def
  using assms by (auto intro!: filter_cong simp: list_all_iff dest!: has_string_nameD simp: find_by_name_None)

lemma plain_fields_self:
  assumes "plain_fields u" "k \<in> set (map fst u)"
  shows "field_changed u u k = Inr False"
proof -
  from assms(2) obtain v where v: "member_of u k = Some v"
    unfolding member_of_def by (metis map_of_eq_None_iff not_None_eq set_map)
  then have in_u: "(k, v) \<in> set u" by (rule member_of_in)
  show ?thesis
  proof (cases v)
    case (JArr xs)
    with in_u assms(1) have "list_all well_formed_option xs"
      by (auto simp: plain_fields_def list_all_iff)
    then have "validateOptions (Some (JArr xs)) (Some (JArr xs)) = Inr True"
      by (simp add: validateOptions_wf)
    with v JArr show ?thesis by (simp add: field_changed_def)
  next
    case (JObj kvs)
    with in_u assms(1) show ?thesis by (auto simp: plain_fields_def list_all_iff)
  qed (use v in \<open>simp_all add: field_changed_def\<close>)
qed

lemma reduce_keys_unchanged:
  "\<forall>k\<in>set ks. field_changed u ex k = Inr False \<Longrightarrow> reduce_keys u ex ks False = Inr False"
  by (induction ks) auto

lemma plain_fields_same: "plain_fields u \<Longrightarrow> reduce_keys u u (map fst u) False = Inr False"
  by (rule reduce_keys_unchanged) (simp add: plain_fields_self)

lemma find_append_case:
  "List.find P (xs @ ys) = (case List.find P xs of None \<Rightarrow> List.find P ys | Some x \<Rightarrow> Some x)"
  by (induction xs) auto

lemma find_map_preserving:
  "(\<And>x. x \<in> set xs \<Longrightarrow> P (f x) = P x) \<Longrightarrow> List.find P (map f xs) = map_option f (List.find P xs)"
  by (induction xs) auto

lemma find_filter_all:
  "(\<And>x. x \<in> set xs \<Longrightarrow> P x \<Longrightarrow> K x) \<Longrightarrow> List.find P (filter K xs) = List.find P xs"
  by (induction xs) auto

lemma named_append: "named (xs @ ys) s = (named xs s \<or> named ys s)"
  by (auto simp: named_iff)

lemma named_self:
  "has_string_name p \<Longrightarrow> p \<in> set ps \<Longrightarrow> named ps (name_str p)"
  by (auto simp: named_iff dest: has_string_nameD)

lemma replaced_name:
  "member_of p ''name'' = Some (JStr s) \<Longrightarrow>
   member_of (case find_by_name ups (member_of p ''name'') of Some u \<Rightarrow> u | None \<Rightarrow> p) ''name''
     = Some (JStr s)"
  by (auto split: option.splits dest: find_by_name_SomeD)

lemma name_str_eq: "member_of p ''name'' = Some (JStr s) \<Longrightarrow> name_str p = s"
  by (simp add: name_str_def)

lemma named_filter_name: "named (filter (\<lambda>p. Q (name_str p)) ps) s = (named ps s \<and> Q s)"
  by (auto simp: named_iff name_str_eq)

lemma named_deleted:
  assumes "list_all has_string_name cur" "toDelete upd cur = Inr del"
  shows "named del s =
         (named cur s \<and> \<not> named upd s \<and> \<not> str_includes s ''hs_'' \<and> \<not> str_includes s ''hubspot_'')"
proof -
  have "del = toDelete_by_substring upd cur"
    using toDelete_string_names [OF assms(1), of upd] assms(2) by simp
  then show ?thesis
    unfolding toDelete_by_substring_def
    using named_filter_name [where Q = "\<lambda>s. \<not> named upd s \<and> \<not> str_includes s ''hs_'' \<and>
        \<not> str_includes s ''hubspot_''" and ps = cur and s = s]
    by simp
qed

lemma named_created:
  assumes "list_all has_string_name upd"
  shows "named (toCreate upd cur) s = (named upd s \<and> \<not> named cur s)"
  unfolding toCreate_string_names [OF assms]
  using named_filter_name [where Q = "\<lambda>s. \<not> named cur s" and ps = upd and s = s]
  by simp

lemma named_applied:
  assumes "list_all has_string_name cur"
  shows "named (apply_changes cur del cre ups) s = ((named cur s \<and> \<not> named del s) \<or> named cre s)"
proof -
  let ?K = "\<lambda>p. find_by_name del (member_of p ''name'') = None"
  let ?R = "\<lambda>p. case find_by_name ups (member_of p ''name'') of Some u \<Rightarrow> u | None \<Rightarrow> p"
  have "named (map ?R (filter ?K cur)) s = (named cur s \<and> \<not> named del s)"
  proof
    assume "named (map ?R (filter ?K cur)) s"
    then obtain p where p: "p \<in> set cur" "?K p" "member_of (?R p) ''name'' = Some (JStr s)"
      by (auto simp: named_iff)
    from p(1) assms obtain t where t: "member_of p ''name'' = Some (JStr t)"
      by (auto simp: list_all_iff dest!: has_string_nameD)
    from replaced_name [OF t, of ups] p(3) have "t = s" by simp
    with t p(2) have "\<not> named del s" by (simp add: find_by_name_None)
    moreover from t p(1) \<open>t = s\<close> have "named cur s" by (auto simp: named_iff)
    ultimately show "named cur s \<and> \<not> named del s" by simp
  next
    assume "named cur s \<and> \<not> named del s"
    then obtain p where p: "p \<in> set cur" "member_of p ''name'' = Some (JStr s)" and nd: "\<not> named del s"
      by (auto simp: named_iff)
    from nd p(2) have "?K p" by (simp add: find_by_name_None)
    moreover from replaced_name [OF p(2), of ups] have "member_of (?R p) ''name'' = Some (JStr s)" .
    ultimately show "named (map ?R (filter ?K cur)) s"
      using p(1) by (auto simp: named_iff)
  qed
  then show ?thesis by (simp add: apply_changes_def named_append)
qed

lemma string_names_applied:
  assumes "list_all has_string_name cur" "list_all has_string_name cre"
  shows "list_all has_string_name (apply_changes cur del cre ups)"
proof -
  have "has_string_name (case find_by_name ups (member_of p ''name'') of Some u \<Rightarrow> u | None \<Rightarrow> p)"
    if "has_string_name p" for p
    using replaced_name [OF has_string_nameD [OF that], of ups]
    by (simp add: has_string_name_def)
  then show ?thesis
    using assms by (auto simp: apply_changes_def list_all_iff)
qed

lemma distinct_names_eq:
  "distinct (map name_str upd) \<Longrightarrow> u \<in> set upd \<Longrightarrow> u' \<in> set upd \<Longrightarrow>
   name_str u = name_str u' \<Longrightarrow> u = u'"
  by (auto simp: distinct_map dest: inj_onD)

lemma toDelete_second:
  assumes nu: "list_all has_string_name upd" and nc: "list_all has_string_name cur"
    and d: "toDelete upd cur = Inr del"
  shows "toDelete upd (apply_changes cur del (toCreate upd cur) ups) = Inr []"
proof -
  let ?cur' = "apply_changes cur del (toCreate upd cur) ups"
  have ncre: "list_all has_string_name (toCreate upd cur)"
    using nu by (simp add: toCreate_def list_all_iff)
  have n': "list_all has_string_name ?cur'"
    using string_names_applied [OF nc ncre] .
  have "named upd (name_str p) \<or> str_includes (name_str p) ''hs_'' \<or>
        str_includes (name_str p) ''hubspot_''" if "p \<in> set ?cur'" for p
  proof -
    from that n' have "has_string_name p" by (simp add: list_all_iff)
    from named_self [OF this that]
    have "named ?cur' (name_str p)" .
    then show ?thesis
      unfolding named_applied [OF nc] named_deleted [OF nc d] named_created [OF nu] by blast
  qed
  then have "toDelete_by_substring upd ?cur' = []"
    by (auto simp: toDelete_by_substring_def filter_empty_conv)
  with toDelete_string_names [OF n', of upd] show ?thesis by simp
qed

lemma toCreate_second:
  assumes nu: "list_all has_string_name upd" and nc: "list_all has_string_name cur"
    and d: "toDelete upd cur = Inr del"
  shows "toCreate upd (apply_changes cur del (toCreate upd cur) ups) = []"
proof -
  let ?cur' = "apply_changes cur del (toCreate upd cur) ups"
  have "named ?cur' (name_str u)" if "u \<in> set upd" for u
  proof -
    from that nu have "has_string_name u" by (simp add: list_all_iff)
    from named_self [OF this that] have "named upd (name_str u)" .
    then show ?thesis
      unfolding named_applied [OF nc] named_deleted [OF nc d] named_created [OF nu] by blast
  qed
  then show ?thesis
    unfolding toCreate_string_names [OF nu] by (auto simp: filter_empty_conv)
qed

lemma toUpdate_second:
  assumes nu: "list_all has_string_name upd" and nc: "list_all has_string_name cur"
    and dist: "distinct (map name_str upd)" and plain: "list_all plain_fields upd"
    and d: "toDelete upd cur = Inr del" and u: "toUpdate upd cur = Inr ups"
  shows "toUpdate upd (apply_changes cur del (toCreate upd cur) ups) = Inr []"
proof -
  let ?cre = "toCreate upd cur"
  let ?K = "\<lambda>p. find_by_name del (member_of p ''name'') = None"
  let ?R = "\<lambda>p. case find_by_name ups (member_of p ''name'') of Some u \<Rightarrow> u | None \<Rightarrow> p"
  let ?cur' = "apply_changes cur del ?cre ups"
  from u have ups: "ups = filter (\<lambda>x. updatable cur x = Inr True) upd"
    and ok: "\<forall>x\<in>set upd. \<exists>b. updatable cur x = Inr b"
    unfolding toUpdate_def by (auto dest: filter_js_Inr)
  have "updatable ?cur' x = Inr False" if x: "x \<in> set upd" for x
  proof -
    from x nu have hx: "has_string_name x" by (simp add: list_all_iff)
    define s where "s = name_str x"
    from has_string_nameD [OF hx] have s: "member_of x ''name'' = Some (JStr s)"
      by (simp add: s_def)
    from x plain have px: "plain_fields x" by (simp add: list_all_iff)
    let ?P = "\<lambda>p. member_of p ''name'' = Some (JStr s)"
    have fb: "find_by_name ?cur' (Some (JStr s)) =
        (case List.find ?P (map ?R (filter ?K cur)) of
           None \<Rightarrow> List.find ?P ?cre | Some y \<Rightarrow> Some y)"
      by (simp add: find_by_name_string apply_changes_def find_append_case)
    have pres: "?P (?R p) = ?P p" if "p \<in> set cur" for p
    proof -
      from that nc obtain t where t: "member_of p ''name'' = Some (JStr t)"
        by (auto simp: list_all_iff dest!: has_string_nameD)
      from replaced_name [OF t, of ups] t show ?thesis by simp
    qed
    have fm: "List.find ?P (map ?R (filter ?K cur)) = map_option ?R (List.find ?P (filter ?K cur))"
      by (rule find_map_preserving) (use pres in auto)
    have self: "updatable ?cur' x = Inr False" if "find_by_name ?cur' (Some (JStr s)) = Some x"
      using that s px by (simp add: updatable_def plain_fields_same)
    have upd_named: "named upd s"
      using x s by (auto simp: named_iff)
    have same_name: "u' = x" if "u' \<in> set upd" "member_of u' ''name'' = Some (JStr s)" for u'
      using distinct_names_eq [OF dist that(1) x] name_str_eq [OF that(2)] s_def by simp
    show ?thesis
    proof (cases "named cur s")
      case True
      have nd: "\<not> named del s"
        using named_deleted [OF nc d, of s] upd_named by simp
      have ff: "List.find ?P (filter ?K cur) = List.find ?P cur"
        by (rule find_filter_all) (use nd in \<open>simp add: find_by_name_None\<close>)
      from True obtain e where e: "find_by_name cur (Some (JStr s)) = Some e"
        using find_by_name_Some_named by metis
      then have ename: "member_of e ''name'' = Some (JStr s)"
        by (auto dest: find_by_name_SomeD)
      from e have fe: "List.find ?P cur = Some e" by (simp add: find_by_name_string)
      have cur'_find: "find_by_name ?cur' (Some (JStr s)) = Some (?R e)"
        by (simp add: fb fm ff fe)
      show ?thesis
      proof (cases "find_by_name ups (Some (JStr s))")
        case None
        then have Re: "?R e = e" using ename by simp
        from None have "\<not> named ups s" by (simp add: find_by_name_None)
        then have "x \<notin> set ups" using s by (auto simp: named_iff)
        then have "updatable cur x \<noteq> Inr True" using ups x by simp
        with ok x have "updatable cur x = Inr False" by (metis (full_types))
        then have "reduce_keys x e (map fst x) False = Inr False"
          using e s by (simp add: updatable_def)
        then show ?thesis using cur'_find Re s by (simp add: updatable_def)
      next
        case (Some u')
        then have "u' \<in> set ups" and n': "member_of u' ''name'' = Some (JStr s)"
          by (auto dest: find_by_name_SomeD)
        then have "u' \<in> set upd" using ups by simp
        from same_name [OF this n'] have "u' = x" .
        with Some ename have "?R e = x" by simp
        with cur'_find self show ?thesis by simp
      qed
    next
      case False
      have "List.find ?P (filter ?K cur) = None"
        using False by (auto simp: find_None_iff named_iff)
      then have f1: "List.find ?P (map ?R (filter ?K cur)) = None"
        by (simp add: fm)
      have "x \<in> set ?cre"
        using x False s by (simp add: toCreate_def find_by_name_None)
      then have "List.find ?P ?cre \<noteq> None"
        using s by (auto simp: find_None_iff)
      then obtain u' where u': "List.find ?P ?cre = Some u'" by blast
      then have "u' \<in> set ?cre" and n': "member_of u' ''name'' = Some (JStr s)"
        by (auto simp: find_Some_iff)
      then have "u' \<in> set upd" by (simp add: toCreate_def)
      from same_name [OF this n'] have "u' = x" .
      with u' f1 fb have "find_by_name ?cur' (Some (JStr s)) = Some x" by simp
      with self show ?thesis .
    qed
  qed
  then have "filter_js (updatable ?cur') upd = Inr (filter (\<lambda>x. False) upd)"
    by (rule filter_js_total)
  then show ?thesis by (simp add: toUpdate_def)
qed

lemmas scenario_defs =
  foo_def foo_relabelled_def legacy_field_def hs_object_id_def amount_def status_local_def
  status_remote_def optA_def optB_def foo_a_def foo_b_def

lemmas reconcile_defs =
  reconcile_def toDelete_def deletable_def toCreate_def toUpdate_def updatable_def
  field_changed_def validateOptions_def shouldContainAll_def same_option_def find_by_name_def
  member_of_Cons member_of_Nil

text \<open>
  Claim C8, as amended. For property lists with string names, the updated names pairwise
  distinct and every field of an updated property a primitive or a list of well-formed
  options: when the first run completes and its results are applied to the current
  list, reconciling the same updated list against the result gives three empty lists.
\<close>

theorem reconcile_idempotent:
  assumes "list_all has_string_name upd" and "list_all has_string_name cur"
    and "distinct (map name_str upd)" and "list_all plain_fields upd"
    and "reconcile (Some upd) (Some cur) = Inr (del, cre, ups)"
  shows "reconcile (Some upd) (Some (apply_changes cur del cre ups)) = Inr ([], [], [])"
proof -
  from assms(5) have d: "toDelete upd cur = Inr del" and u: "toUpdate upd cur = Inr ups"
    and c: "cre = toCreate upd cur"
    by (auto simp: reconcile_def split: sum.splits)
  show ?thesis
    unfolding c
    using toDelete_second [OF assms(1,2) d, of ups] toCreate_second [OF assms(1,2) d, of ups]
      toUpdate_second [OF assms(1-4) d u]
    by (simp add: reconcile_def)
qed

theorem reconcile_idempotent_witness:
  "list_all has_string_name [foo_relabelled, status_local, amount]
   \<and> list_all has_string_name [foo, status_remote, legacy_field, hs_object_id]
   \<and> distinct (map name_str [foo_relabelled, status_local, amount])
   \<and> list_all plain_fields [foo_relabelled, status_local, amount]
   \<and> reconcile (Some [foo_relabelled, status_local, amount])
         (Some [foo, status_remote, legacy_field, hs_object_id])
       = Inr ([legacy_field], [amount], [foo_relabelled])
   \<and> reconcile (Some [foo_relabelled, status_local, amount])
         (Some (apply_changes [foo, status_remote, legacy_field, hs_object_id]
                  [legacy_field] [amount] [foo_relabelled]))
       = Inr ([], [], [])"
proof -
  have 1: "list_all has_string_name [foo_relabelled, status_local, amount]"
    by (simp add: has_string_name_def scenario_defs member_of_Cons)
  have 2: "list_all has_string_name [foo, status_remote, legacy_field, hs_object_id]"
    by (simp add: has_string_name_def scenario_defs member_of_Cons)
  have 3: "distinct (map name_str [foo_relabelled, status_local, amount])"
    by (simp add: name_str_def scenario_defs member_of_Cons)
  have 4: "list_all plain_fields [foo_relabelled, status_local, amount]"
    by (simp add: plain_fields_def scenario_defs)
  have 5: "reconcile (Some [foo_relabelled, status_local, amount])
             (Some [foo, status_remote, legacy_field, hs_object_id])
           = Inr ([legacy_field], [amount], [foo_relabelled])"
    by (simp add: reconcile_defs scenario_defs)
  from reconcile_idempotent [OF 1 2 3 4 5] 1 2 3 4 5 show ?thesis by simp
qed

text \<open>
  The claim as stated, for every pair, fails when the updated list names a property
  twice: the second run finds the other of the two changed.
\<close>

theorem reconcile_idempotent_counterexample:
  "reconcile (Some [foo_a, foo_b]) (Some [foo_a]) = Inr ([], [], [foo_b])
   \<and> reconcile (Some [foo_a, foo_b]) (Some (apply_changes [foo_a] [] [] [foo_b]))
       = Inr ([], [], [foo_a])"
  by (simp add: reconcile_defs apply_changes_def foo_a_def foo_b_def)

section \<open>The delete flow stops at an unknown identifier\<close>

lemma requests_append: "requests (xs @ ys) = requests xs @ requests ys"
  by (induction xs rule: requests.induct) auto








section \<open>The update flow, item by item\<close>





lemma deal_reconcile:
  "reconcile (ls_properties deal_file) (rs_properties deal_entry)
     = Inr ([legacy_field], [amount], [foo_relabelled])"
  by (simp add: deal_file_def deal_entry_def reconcile_defs scenario_defs)

lemma deal_names:
  "member_of legacy_field ''name'' = Some (JStr ''legacy_field'')"
  "member_of amount ''name'' = Some (JStr ''amount'')"
  "member_of foo_relabelled ''name'' = Some (JStr ''foo'')"
  by (simp_all add: scenario_defs member_of_Cons)


lemma error_logged_append: "error_logged xs \<Longrightarrow> error_logged (xs @ ys)"
  by (induction xs rule: error_logged.induct) auto

lemma handled_append:
  "handled remote h xs \<Longrightarrow> handled remote (h @ xs) ys \<Longrightarrow> handled remote h (xs @ ys)"
  by (induction remote h xs rule: handled.induct) (auto simp: error_logged_append)

lemma handled_stops: "handled remote h evs \<Longrightarrow> stops remote h evs failed"
  by (induction remote h evs rule: handled.induct) auto

lemma stops_append:
  "handled remote h xs \<Longrightarrow> stops remote (h @ xs) ys failed \<Longrightarrow> stops remote h (xs @ ys) failed"
  by (induction remote h xs rule: handled.induct) (auto simp: error_logged_append)

lemma ends_rejected_append:
  "ends_rejected remote (h @ xs) ys \<Longrightarrow> ends_rejected remote h (xs @ ys)"
proof (induction remote h xs rule: ends_rejected.induct)
  case (3 remote h req evs)
  then have ys: "ys \<noteq> []" by auto
  show ?case
  proof (cases "evs = []")
    case True
    with 3 ys show ?thesis by simp
  next
    case False
    with 3 ys show ?thesis by simp
  qed
qed auto

lemma error_logged_iff: "error_logged evs = (\<exists>post'. evs = Log ErrorObject # post')"
  by (cases evs rule: error_logged.cases) auto

lemma stops_split:
  "stops remote h evs failed \<Longrightarrow> evs = pre @ Http req # post \<Longrightarrow>
   remote (h @ pre) req = Rejected \<Longrightarrow>
   (if aborting req then post = [] \<and> failed else \<exists>post'. post = Log ErrorObject # post')"
proof (induction pre arbitrary: h evs)
  case Nil
  then show ?case by (auto simp: error_logged_iff split: if_splits)
next
  case (Cons x pre)
  then obtain evs' where evs': "evs = x # evs'" "evs' = pre @ Http req # post" by auto
  from Cons.prems(1) evs'(1) have "stops remote (h @ [x]) evs' failed"
    by (cases x) auto
  from Cons.IH [OF this evs'(2)] Cons.prems(3) show ?case by simp
qed

lemma ends_rejected_split:
  "ends_rejected remote h evs \<Longrightarrow>
   \<exists>pre req. evs = pre @ [Http req] \<and> aborting req \<and> remote (h @ pre) req = Rejected"
proof (induction remote h evs rule: ends_rejected.induct)
  case (1 remote h)
  then show ?case by simp
next
  case (2 remote h msg evs)
  then obtain pre req where "evs = pre @ [Http req]" "aborting req"
    "remote ((h @ [Log msg]) @ pre) req = Rejected"
    by auto
  then show ?case by (intro exI [of _ "Log msg # pre"] exI [of _ req]) simp
next
  case (3 remote h req evs)
  show ?case
  proof (cases "evs = []")
    case True
    with 3 show ?thesis by (intro exI [of _ "[]"] exI [of _ req]) simp
  next
    case False
    with 3 obtain pre req' where "evs = pre @ [Http req']" "aborting req'"
      "remote ((h @ [Http req]) @ pre) req' = Rejected"
      by auto
    then show ?thesis by (intro exI [of _ "Http req # pre"] exI [of _ req']) simp
  qed
qed

lemma run_outcome_append:
  "handled remote h xs \<Longrightarrow> run_outcome remote (h @ xs) ys res \<Longrightarrow>
   run_outcome remote h (xs @ ys) res"
  by (auto simp: run_outcome_def handled_append stops_append ends_rejected_append
      split: if_splits)

lemma delete_properties_outcome:
  "delete_properties remote cur ps h = (res, h') \<Longrightarrow>
   \<exists>evs. h' = h @ evs \<and> run_outcome remote h evs res \<and> (res = Inr () \<or> res = Inl HttpError)"
proof (induction ps arbitrary: h)
  case Nil
  then show ?case by (auto simp: run_outcome_def)
next
  case (Cons p ps)
  let ?l = "Log (DeletingProperty (member_of p ''name'') (rs_name cur))"
  let ?r = "DeleteProperty (rs_objectTypeId cur) (member_of p ''name'')"
  show ?case
  proof (cases "remote (h @ [?l]) ?r")
    case Rejected
    with Cons.prems have "h' = h @ [?l, Http ?r]" "res = Inl HttpError"
      by (auto simp: call_def say_def)
    with Rejected show ?thesis
      by (intro exI [of _ "[?l, Http ?r]"]) (simp add: run_outcome_def)
  next
    case (Resolved d)
    with Cons.prems have "delete_properties remote cur ps (h @ [?l, Http ?r]) = (res, h')"
      by (simp add: call_def say_def)
    from Cons.IH [OF this] obtain evs where evs: "h' = (h @ [?l, Http ?r]) @ evs"
      "run_outcome remote (h @ [?l, Http ?r]) evs res" "res = Inr () \<or> res = Inl HttpError"
      by blast
    have "handled remote h [?l, Http ?r]" using Resolved by simp
    from run_outcome_append [OF this evs(2)] evs(1,3) show ?thesis
      by (intro exI [of _ "[?l, Http ?r] @ evs"]) simp
  qed
qed

lemma create_properties_outcome:
  "create_properties remote cur ps h = (res, h') \<Longrightarrow>
   \<exists>evs. h' = h @ evs \<and> run_outcome remote h evs res \<and> (res = Inr () \<or> res = Inl HttpError)"
proof (induction ps arbitrary: h)
  case Nil
  then show ?case by (auto simp: run_outcome_def)
next
  case (Cons p ps)
  let ?l = "Log (CreatingProperty (member_of p ''name'') (rs_name cur))"
  let ?r = "PostProperty (rs_objectTypeId cur) p"
  show ?case
  proof (cases "remote (h @ [?l]) ?r")
    case Rejected
    with Cons.prems have "h' = h @ [?l, Http ?r]" "res = Inl HttpError"
      by (auto simp: call_def say_def)
    with Rejected show ?thesis
      by (intro exI [of _ "[?l, Http ?r]"]) (simp add: run_outcome_def)
  next
    case (Resolved d)
    with Cons.prems have "create_properties remote cur ps (h @ [?l, Http ?r]) = (res, h')"
      by (simp add: call_def say_def)
    from Cons.IH [OF this] obtain evs where evs: "h' = (h @ [?l, Http ?r]) @ evs"
      "run_outcome remote (h @ [?l, Http ?r]) evs res" "res = Inr () \<or> res = Inl HttpError"
      by blast
    have "handled remote h [?l, Http ?r]" using Resolved by simp
    from run_outcome_append [OF this evs(2)] evs(1,3) show ?thesis
      by (intro exI [of _ "[?l, Http ?r] @ evs"]) simp
  qed
qed

lemma update_properties_handled:
  "\<exists>evs. update_properties remote cur ps h = h @ evs \<and> handled remote h evs"
proof (induction ps arbitrary: h)
  case Nil
  then show ?case by simp
next
  case (Cons p ps)
  let ?l = "Log (UpdatingProperty (member_of p ''name'') (rs_name cur))"
  let ?r = "PatchProperty (rs_objectTypeId cur) (member_of p ''name'') p"
  show ?case
  proof (cases "remote (h @ [?l]) ?r")
    case Rejected
    from Cons.IH [of "h @ [?l, Http ?r, Log ErrorObject]"] obtain evs where evs:
      "update_properties remote cur ps (h @ [?l, Http ?r, Log ErrorObject])
         = (h @ [?l, Http ?r, Log ErrorObject]) @ evs"
      "handled remote (h @ [?l, Http ?r, Log ErrorObject]) evs"
      by blast
    have "handled remote h [?l, Http ?r, Log ErrorObject]" by simp
    from handled_append [OF this evs(2)] evs(1) Rejected show ?thesis
      by (intro exI [of _ "[?l, Http ?r, Log ErrorObject] @ evs"]) (simp add: call_def say_def)
  next
    case (Resolved d)
    from Cons.IH [of "h @ [?l, Http ?r]"] obtain evs where evs:
      "update_properties remote cur ps (h @ [?l, Http ?r]) = (h @ [?l, Http ?r]) @ evs"
      "handled remote (h @ [?l, Http ?r]) evs"
      by blast
    have "handled remote h [?l, Http ?r]" using Resolved by simp
    from handled_append [OF this evs(2)] evs(1) Resolved show ?thesis
      by (intro exI [of _ "[?l, Http ?r] @ evs"]) (simp add: call_def say_def)
  qed
qed

lemma reconcile_error: "reconcile u c = Inl e \<Longrightarrow> e = TypeError"
  by (auto simp: reconcile_def toDelete_def split: option.splits sum.splits
      dest: toUpdate_error dest!: filter_js_Inl_D)
    (auto simp: deletable_def Let_def split: sum.splits bool.splits
      elim!: js_includes.elims)

lemma updateSchema_outcome:
  assumes "updateSchema remote s cur h = (res, h')"
  shows "\<exists>evs. h' = h @ evs \<and> run_outcome remote h evs res"
proof (cases "reconcile (ls_properties s) (rs_properties cur)")
  case (Inl e)
  with assms reconcile_error [OF Inl] have "res = Inl TypeError" "h' = h"
    by (auto simp: updateSchema_def)
  then show ?thesis by (simp add: run_outcome_def)
next
  case (Inr lists)
  obtain del cre upd where lists: "lists = (del, cre, upd)" by (cases lists)
  obtain r1 h1 where d: "delete_properties remote cur del h = (r1, h1)" by fastforce
  from delete_properties_outcome [OF d] obtain e1 where e1: "h1 = h @ e1"
    "run_outcome remote h e1 r1" "r1 = Inr () \<or> r1 = Inl HttpError"
    by blast
  show ?thesis
  proof (cases r1)
    case (Inl e)
    with assms Inr lists d have "res = r1" "h' = h1" by (auto simp: updateSchema_def)
    with e1 show ?thesis by blast
  next
    case r1: (Inr x)
    with e1(2) have g1: "handled remote h e1" by (simp add: run_outcome_def)
    obtain r2 h2 where c: "create_properties remote cur cre h1 = (r2, h2)" by fastforce
    from create_properties_outcome [OF c] obtain e2 where e2: "h2 = h1 @ e2"
      "run_outcome remote h1 e2 r2" "r2 = Inr () \<or> r2 = Inl HttpError"
      by blast
    show ?thesis
    proof (cases r2)
      case (Inl e)
      with assms Inr lists d c r1 have "res = r2" "h' = h2" by (auto simp: updateSchema_def)
      with e1(1) e2(1) run_outcome_append [OF g1] e2(2) show ?thesis
        by (intro exI [of _ "e1 @ e2"]) simp
    next
      case r2: (Inr y)
      with e2(2) have g2: "handled remote h1 e2" by (simp add: run_outcome_def)
      from update_properties_handled [of remote cur upd h2] obtain e3 where e3:
        "update_properties remote cur upd h2 = h2 @ e3" "handled remote h2 e3"
        by blast
      from assms Inr lists d c r1 r2 have res: "res = Inr ()"
        and h': "h' = update_properties remote cur upd h2"
        by (auto simp: updateSchema_def)
      have "handled remote h (e1 @ e2 @ e3)"
        using g1 g2 e3(2) e1(1) e2(1) by (auto intro!: handled_append)
      with res h' e1(1) e2(1) e3(1) show ?thesis
        by (intro exI [of _ "e1 @ e2 @ e3"]) (simp add: run_outcome_def)
    qed
  qed
qed

lemma updateSchema_result:
  assumes "updateSchema remote s cur h = (res, h')"
    and "reconcile (ls_properties s) (rs_properties cur) = Inr (del, cre, upd)"
  shows "res = Inr () \<or> res = Inl HttpError"
proof -
  obtain r1 h1 where d: "delete_properties remote cur del h = (r1, h1)" by fastforce
  obtain r2 h2 where c: "create_properties remote cur cre h1 = (r2, h2)" by fastforce
  from delete_properties_outcome [OF d] have 1: "r1 = Inr () \<or> r1 = Inl HttpError" by blast
  from create_properties_outcome [OF c] have 2: "r2 = Inr () \<or> r2 = Inl HttpError" by blast
  from assms d c 1 2 show ?thesis
    by (auto simp: updateSchema_def)
qed





section \<open>The create flow: creation phase, then association phase\<close>

lemma create_loop_append:
  "create_loop remote (pre @ post) meta as h =
     (case create_loop remote pre meta as h of
        (m1, a1, h1) \<Rightarrow> create_loop remote post m1 a1 h1)"
  by (induction pre arbitrary: meta as h) (auto simp: Let_def split: prod.splits option.splits)

lemma create_loop_frame:
  "create_loop remote files meta as h = (meta', as', h') \<Longrightarrow> ident \<notin> fst ` set files \<Longrightarrow>
   meta' ident = meta ident"
proof (induction files arbitrary: meta as h)
  case Nil
  then show ?case by simp
next
  case (Cons f files)
  obtain objectType objectSchema where f: "f = (objectType, objectSchema)" by (cases f)
  from Cons.prems(2) f have ne: "ident \<noteq> objectType" and rest: "ident \<notin> fst ` set files"
    by auto
  from Cons.prems(1) f show ?case
    by (auto simp: Let_def split: prod.splits option.splits if_splits
        dest!: Cons.IH [OF _ rest] simp: ne)
qed

lemma create_loop_trace:
  "create_loop remote files meta as h = (meta', as', h') \<Longrightarrow>
   as' = as @ all_declared files \<and> (\<exists>evs. h' = h @ evs \<and> requests evs = schema_posts files)"
proof (induction files arbitrary: meta as h)
  case Nil
  then show ?case by (simp add: all_declared_def schema_posts_def)
next
  case (Cons f files)
  obtain objectType objectSchema where f: "f = (objectType, objectSchema)" by (cases f)
  let ?r = "PostSchema (objectSchema\<lparr>ls_associations := []\<rparr>)"
  let ?as = "as @ declared objectType objectSchema"
  obtain m1 h1 where step: "create_loop remote files m1 ?as (h @ Http ?r # h1) = (meta', as', h')"
    and h1: "requests h1 = []"
    using Cons.prems f
    by (cases "remote h ?r")
      (auto simp: Let_def createSchema_def call_def say_def split: if_splits)
  from Cons.IH [OF step] obtain evs where evs: "as' = ?as @ all_declared files"
    "h' = (h @ Http ?r # h1) @ evs" "requests evs = schema_posts files"
    by blast
  show ?case
  proof (intro conjI exI [of _ "Http ?r # h1 @ evs"])
    show "as' = as @ all_declared (f # files)"
      using evs(1) f by (simp add: all_declared_def)
    show "h' = h @ Http ?r # h1 @ evs" using evs(2) by simp
    show "requests (Http ?r # h1 @ evs) = schema_posts (f # files)"
      using evs(3) h1 f by (simp add: requests_append schema_posts_def)
  qed
qed

lemma associate_loop_trace:
  "\<exists>evs. associate_loop remote meta as h = h @ evs
     \<and> requests evs = map (\<lambda>a. PostAssociation (resolved meta a)) as"
proof (induction as arbitrary: h)
  case Nil
  then show ?case by simp
next
  case (Cons a as)
  let ?r = "PostAssociation (resolved meta a)"
  obtain h1 where h1: "createAssociation remote (resolved meta a) h = h @ Http ?r # h1"
    "requests h1 = []"
    by (cases "remote h ?r") (auto simp: createAssociation_def call_def say_def)
  from Cons.IH [of "h @ Http ?r # h1"] obtain evs where
    "associate_loop remote meta as (h @ Http ?r # h1) = (h @ Http ?r # h1) @ evs"
    "requests evs = map (\<lambda>a. PostAssociation (resolved meta a)) as"
    by blast
  with h1 show ?case
    by (intro exI [of _ "Http ?r # h1 @ evs"]) (simp add: requests_append)
qed


lemma create_loop_failed:
  assumes "create_loop remote (pre @ (objectType, s) # post) meta as h = (meta', as', h')"
    and "create_loop remote pre meta as h = (m1, a1, h1)"
    and "fst (createSchema remote (s\<lparr>ls_associations := []\<rparr>) h1) = None"
    and "objectType \<notin> fst ` set (pre @ post)"
  shows "meta' objectType = meta objectType"
proof -
  obtain h2 where "createSchema remote (s\<lparr>ls_associations := []\<rparr>) h1 = (None, h2)"
    using assms(3) by (cases "createSchema remote (s\<lparr>ls_associations := []\<rparr>) h1") auto
  with assms(1,2) have step:
    "create_loop remote post m1 (a1 @ declared objectType s) h2 = (meta', as', h')"
    by (simp add: create_loop_append Let_def)
  from assms(4) have np: "objectType \<notin> fst ` set pre" and nq: "objectType \<notin> fst ` set post"
    by auto
  from create_loop_frame [OF step nq] have "meta' objectType = m1 objectType" .
  also from create_loop_frame [OF assms(2) np] have "\<dots> = meta objectType" .
  finally show ?thesis .
qed



text \<open>
  Claim C10, as amended. When the create of a file is rejected, each association it
  declares is still posted in the association phase, its identifiers looked up in the
  final index; and when no other file of the batch has the identifier, the
  \<^verbatim>\<open>fromObjectTypeId\<close> is the local identifier if the initial index has no entry for it,
  and the \<^verbatim>\<open>objectTypeId\<close> of that entry if it has.
\<close>

theorem createSchemas_failed_file:
  assumes "create_loop remote (pre @ (objectType, s) # post) meta [] h = (meta', assocs, h1)"
    and "create_loop remote pre meta [] h = (m1, a1, h2)"
    and "fst (createSchema remote (s\<lparr>ls_associations := []\<rparr>) h2) = None"
    and "target \<in> set (ls_associations s)"
  shows "(\<exists>evs. createSchemas remote meta (pre @ (objectType, s) # post) h = h1 @ evs
           \<and> PostAssociation
               \<lparr>as_name = objectType @ ''_to_'' @ target,
                as_fromObjectTypeId = resolve meta' objectType,
                as_toObjectTypeId = resolve meta' target\<rparr> \<in> set (requests evs))
       \<and> (objectType \<notin> fst ` set (pre @ post) \<longrightarrow>
            resolve meta' objectType =
              (case meta objectType of None \<Rightarrow> objectType | Some entry \<Rightarrow> rs_objectTypeId entry))"
proof
  let ?files = "pre @ (objectType, s) # post"
  let ?a = "\<lparr>as_name = objectType @ ''_to_'' @ target, as_fromObjectTypeId = objectType,
             as_toObjectTypeId = target\<rparr>"
  from create_loop_trace [OF assms(1)] have "assocs = all_declared ?files" by simp
  with assms(4) have "?a \<in> set assocs"
    by (auto simp: all_declared_def declared_def)
  moreover from associate_loop_trace [of remote meta' assocs h1] obtain evs where evs:
    "associate_loop remote meta' assocs h1 = h1 @ evs"
    "requests evs = map (\<lambda>a. PostAssociation (resolved meta' a)) assocs"
    by blast
  ultimately have "PostAssociation (resolved meta' ?a) \<in> set (requests evs)"
    by simp
  moreover have "createSchemas remote meta ?files h = h1 @ evs"
    using assms(1) evs(1) by (simp add: createSchemas_def)
  ultimately show "\<exists>evs. createSchemas remote meta ?files h = h1 @ evs
           \<and> PostAssociation
               \<lparr>as_name = objectType @ ''_to_'' @ target,
                as_fromObjectTypeId = resolve meta' objectType,
                as_toObjectTypeId = resolve meta' target\<rparr> \<in> set (requests evs)"
    by (auto simp: resolved_def)
  show "objectType \<notin> fst ` set (pre @ post) \<longrightarrow>
        resolve meta' objectType =
          (case meta objectType of None \<Rightarrow> objectType | Some entry \<Rightarrow> rs_objectTypeId entry)"
    using create_loop_failed [OF assms(1,2,3)] by (simp add: resolve_def)
qed

theorem createSchemas_failed_file_witness:
  "fst (createSchema rejecting (deal_assoc_file\<lparr>ls_associations := []\<rparr>) []) = None
   \<and> createSchemas rejecting no_index [(''deal'', deal_assoc_file)] []
       = [Http (PostSchema (deal_assoc_file\<lparr>ls_associations := []\<rparr>)),
          Log (FailedToCreateSchema (Some ''deal'')),
          Http (PostAssociation \<lparr>as_name = ''deal_to_contact'', as_fromObjectTypeId = ''deal'',
                                  as_toObjectTypeId = ''contact''\<rparr>),
          Log (FailedToCreateAssociation ''deal_to_contact'')]"
proof -
  let ?files = "[(''deal'', deal_assoc_file)]"
  let ?h1 = "[Http (PostSchema (deal_assoc_file\<lparr>ls_associations := []\<rparr>)),
              Log (FailedToCreateSchema (Some ''deal''))]"
  obtain meta' assocs h1 where cl:
    "create_loop rejecting ([] @ (''deal'', deal_assoc_file) # []) no_index [] [] = (meta', assocs, h1)"
    by (metis prod_cases3)
  then have meta': "meta' = no_index"
    by (auto simp: createSchema_def call_def say_def rejecting_def Let_def)
  have 2: "create_loop rejecting [] no_index [] [] = (no_index, [], [])" by simp
  have 3: "fst (createSchema rejecting (deal_assoc_file\<lparr>ls_associations := []\<rparr>) []) = None"
    by (simp add: createSchema_def call_def rejecting_def)
  have 4: "''contact'' \<in> set (ls_associations deal_assoc_file)"
    by (simp add: deal_assoc_file_def)
  note t = createSchemas_failed_file [OF cl 2 3 4]
  from t have from_id: "resolve no_index ''deal'' = ''deal''"
    unfolding meta' by (simp add: no_index_def)
  have to_id: "resolve no_index ''contact'' = ''contact''"
    by (simp add: resolve_def no_index_def)
  have run: "createSchemas rejecting no_index ?files []
       = ?h1 @ [Http (PostAssociation \<lparr>as_name = ''deal_to_contact'',
                    as_fromObjectTypeId = resolve no_index ''deal'',
                    as_toObjectTypeId = resolve no_index ''contact''\<rparr>),
                Log (FailedToCreateAssociation ''deal_to_contact'')]"
    by (simp add: createSchemas_def createSchema_def createAssociation_def call_def say_def
        rejecting_def deal_assoc_file_def declared_def Let_def resolved_def)
  from run from_id to_id 3 show ?thesis by simp
qed

text \<open>
  The claim as stated fails when the schema already exists remotely (which is why its
  create is rejected): the index resolves \<^verbatim>\<open>deal\<close>, and the association is posted from
  \<^verbatim>\<open>2-101\<close>, not from the local identifier.
\<close>

theorem createSchemas_failed_file_counterexample:
  "fst (createSchema rejecting (deal_assoc_file\<lparr>ls_associations := []\<rparr>) []) = None
   \<and> createSchemas rejecting deal_index [(''deal'', deal_assoc_file)] []
     = [Http (PostSchema (deal_assoc_file\<lparr>ls_associations := []\<rparr>)),
        Log (FailedToCreateSchema (Some ''deal'')),
        Http (PostAssociation \<lparr>as_name = ''deal_to_contact'', as_fromObjectTypeId = ''2-101'',
                                as_toObjectTypeId = ''contact''\<rparr>),
        Log (FailedToCreateAssociation ''deal_to_contact'')]"
  by (simp add: createSchemas_def createSchema_def createAssociation_def call_def say_def
      rejecting_def deal_assoc_file_def declared_def Let_def resolved_def resolve_def
      deal_index_def deal_entry_def)

section \<open>The update flow under rejected requests\<close>

lemma without_errors_append: "without_errors (xs @ ys) = without_errors xs @ without_errors ys"
  by (simp add: without_errors_def)

lemma prefix_append_left: "prefix xs ys \<Longrightarrow> prefix xs (ys @ zs)"
  by (auto simp: prefix_def)

lemma delete_properties_events:
  "delete_properties remote cur ps h = (res, h') \<Longrightarrow>
   \<exists>evs. h' = h @ evs
     \<and> prefix (without_errors evs) (schema_events cur ps [] [])
     \<and> (res = Inr () \<longrightarrow> without_errors evs = schema_events cur ps [] [])"
proof (induction ps arbitrary: h)
  case Nil
  then show ?case by (simp add: schema_events_def without_errors_def)
next
  case (Cons p ps)
  let ?l = "Log (DeletingProperty (member_of p ''name'') (rs_name cur))"
  let ?r = "DeleteProperty (rs_objectTypeId cur) (member_of p ''name'')"
  show ?case
  proof (cases "remote (h @ [?l]) ?r")
    case Rejected
    with Cons.prems have "h' = h @ [?l, Http ?r]" "res = Inl HttpError"
      by (auto simp: call_def say_def)
    then show ?thesis
      by (intro exI [of _ "[?l, Http ?r]"]) (simp add: schema_events_def without_errors_def)
  next
    case (Resolved d)
    with Cons.prems have "delete_properties remote cur ps (h @ [?l, Http ?r]) = (res, h')"
      by (simp add: call_def say_def)
    from Cons.IH [OF this] obtain evs where evs: "h' = (h @ [?l, Http ?r]) @ evs"
      "prefix (without_errors evs) (schema_events cur ps [] [])"
      "res = Inr () \<longrightarrow> without_errors evs = schema_events cur ps [] []"
      by blast
    then show ?thesis
      by (intro exI [of _ "[?l, Http ?r] @ evs"]) (simp add: schema_events_def without_errors_def)
  qed
qed

lemma create_properties_events:
  "create_properties remote cur ps h = (res, h') \<Longrightarrow>
   \<exists>evs. h' = h @ evs
     \<and> prefix (without_errors evs) (schema_events cur [] ps [])
     \<and> (res = Inr () \<longrightarrow> without_errors evs = schema_events cur [] ps [])"
proof (induction ps arbitrary: h)
  case Nil
  then show ?case by (simp add: schema_events_def without_errors_def)
next
  case (Cons p ps)
  let ?l = "Log (CreatingProperty (member_of p ''name'') (rs_name cur))"
  let ?r = "PostProperty (rs_objectTypeId cur) p"
  show ?case
  proof (cases "remote (h @ [?l]) ?r")
    case Rejected
    with Cons.prems have "h' = h @ [?l, Http ?r]" "res = Inl HttpError"
      by (auto simp: call_def say_def)
    then show ?thesis
      by (intro exI [of _ "[?l, Http ?r]"]) (simp add: schema_events_def without_errors_def)
  next
    case (Resolved d)
    with Cons.prems have "create_properties remote cur ps (h @ [?l, Http ?r]) = (res, h')"
      by (simp add: call_def say_def)
    from Cons.IH [OF this] obtain evs where evs: "h' = (h @ [?l, Http ?r]) @ evs"
      "prefix (without_errors evs) (schema_events cur [] ps [])"
      "res = Inr () \<longrightarrow> without_errors evs = schema_events cur [] ps []"
      by blast
    then show ?thesis
      by (intro exI [of _ "[?l, Http ?r] @ evs"]) (simp add: schema_events_def without_errors_def)
  qed
qed

lemma update_properties_events:
  "\<exists>evs. update_properties remote cur ps h = h @ evs
     \<and> without_errors evs = schema_events cur [] [] ps"
proof (induction ps arbitrary: h)
  case Nil
  then show ?case by (simp add: schema_events_def without_errors_def)
next
  case (Cons p ps)
  let ?l = "Log (UpdatingProperty (member_of p ''name'') (rs_name cur))"
  let ?r = "PatchProperty (rs_objectTypeId cur) (member_of p ''name'') p"
  show ?case
  proof (cases "remote (h @ [?l]) ?r")
    case Rejected
    from Cons.IH [of "h @ [?l, Http ?r, Log ErrorObject]"] obtain evs where
      "update_properties remote cur ps (h @ [?l, Http ?r, Log ErrorObject])
         = (h @ [?l, Http ?r, Log ErrorObject]) @ evs"
      "without_errors evs = schema_events cur [] [] ps"
      by blast
    with Rejected show ?thesis
      by (intro exI [of _ "[?l, Http ?r, Log ErrorObject] @ evs"])
        (simp add: call_def say_def schema_events_def without_errors_def)
  next
    case (Resolved d)
    from Cons.IH [of "h @ [?l, Http ?r]"] obtain evs where
      "update_properties remote cur ps (h @ [?l, Http ?r]) = (h @ [?l, Http ?r]) @ evs"
      "without_errors evs = schema_events cur [] [] ps"
      by blast
    with Resolved show ?thesis
      by (intro exI [of _ "[?l, Http ?r] @ evs"])
        (simp add: call_def say_def schema_events_def without_errors_def)
  qed
qed

lemma schema_events_split:
  "schema_events cur del cre upd =
     schema_events cur del [] [] @ schema_events cur [] cre [] @ schema_events cur [] [] upd"
  by (simp add: schema_events_def)

lemma updateSchema_events:
  assumes "updateSchema remote s cur h = (res, h')"
    and "reconcile (ls_properties s) (rs_properties cur) = Inr (del, cre, upd)"
  shows "\<exists>evs. h' = h @ evs
     \<and> prefix (without_errors evs) (schema_events cur del cre upd)
     \<and> (res = Inr () \<longrightarrow> without_errors evs = schema_events cur del cre upd)"
proof -
  let ?D = "schema_events cur del [] []"
  let ?C = "schema_events cur [] cre []"
  let ?U = "schema_events cur [] [] upd"
  obtain r1 h1 where d: "delete_properties remote cur del h = (r1, h1)" by fastforce
  from delete_properties_events [OF d] obtain e1 where e1: "h1 = h @ e1"
    "prefix (without_errors e1) ?D" "r1 = Inr () \<longrightarrow> without_errors e1 = ?D"
    by blast
  show ?thesis
  proof (cases r1)
    case (Inl e)
    with assms d have "res = Inl e" "h' = h1" by (auto simp: updateSchema_def)
    with e1 show ?thesis
      by (intro exI [of _ e1]) (simp add: schema_events_split [of cur del cre upd] prefix_append_left)
  next
    case (Inr x)
    then have r1: "r1 = Inr ()" by simp
    obtain r2 h2 where c: "create_properties remote cur cre h1 = (r2, h2)" by fastforce
    from create_properties_events [OF c] obtain e2 where e2: "h2 = h1 @ e2"
      "prefix (without_errors e2) ?C" "r2 = Inr () \<longrightarrow> without_errors e2 = ?C"
      by blast
    show ?thesis
    proof (cases r2)
      case (Inl e)
      with assms d c r1 have "res = Inl e" "h' = h2" by (auto simp: updateSchema_def)
      with e1 e2 r1 show ?thesis
        by (intro exI [of _ "e1 @ e2"])
          (simp add: schema_events_split [of cur del cre upd] without_errors_append
            prefix_append_left)
    next
      case (Inr y)
      then have r2: "r2 = Inr ()" by simp
      from update_properties_events [of remote cur upd h2] obtain e3 where e3:
        "update_properties remote cur upd h2 = h2 @ e3" "without_errors e3 = ?U"
        by blast
      from assms d c r1 r2 have "res = Inr ()" "h' = update_properties remote cur upd h2"
        by (auto simp: updateSchema_def)
      with e1 e2 e3 r1 r2 show ?thesis
        by (intro exI [of _ "e1 @ e2 @ e3"])
          (simp add: schema_events_split [of cur del cre upd] without_errors_append)
    qed
  qed
qed

lemma updateSchemas_planned:
  "updateSchemas remote meta files h = (res, h') \<Longrightarrow>
   \<exists>evs. h' = h @ evs
     \<and> prefix (without_errors evs) (planned meta files)
     \<and> (res \<noteq> Inl HttpError \<longrightarrow> without_errors evs = planned meta files)"
proof (induction files arbitrary: meta h)
  case Nil
  then show ?case by (simp add: without_errors_def)
next
  case (Cons f files)
  obtain objectType objectSchema where f: "f = (objectType, objectSchema)" by (cases f)
  show ?case
  proof (cases "index_get meta objectType")
    case Missing
    let ?l = "Log (DoesNotExist objectType)"
    from Cons.prems f Missing have "updateSchemas remote meta files (h @ [?l]) = (res, h')"
      by (simp add: say_def)
    from Cons.IH [OF this] obtain evs where evs: "h' = (h @ [?l]) @ evs"
      "prefix (without_errors evs) (planned meta files)"
      "res \<noteq> Inl HttpError \<longrightarrow> without_errors evs = planned meta files"
      by blast
    with f Missing show ?thesis
      by (intro exI [of _ "?l # evs"]) (simp add: without_errors_def)
  next
    case Inherited
    with Cons.prems f have "res = Inl TypeError" "h' = h" by auto
    with f Inherited show ?thesis by (simp add: without_errors_def)
  next
    case (Own cur)
    obtain r1 h1 where u: "updateSchema remote objectSchema cur h = (r1, h1)" by fastforce
    show ?thesis
    proof (cases "reconcile (ls_properties objectSchema) (rs_properties cur)")
      case (Inl e)
      with u reconcile_error [OF Inl] have "r1 = Inl TypeError" "h1 = h"
        by (auto simp: updateSchema_def)
      with Cons.prems f Own u have "res = Inl TypeError" "h' = h" by auto
      with f Own Inl show ?thesis by (simp add: without_errors_def)
    next
      case (Inr lists)
      obtain del cre upd where lists: "lists = (del, cre, upd)" by (cases lists)
      let ?rest = "planned (meta(objectType \<mapsto> cur\<lparr>rs_properties := None\<rparr>)) files"
      have pl: "planned meta (f # files) = schema_events cur del cre upd @ ?rest"
        using f Own Inr lists by simp
      from updateSchema_events [OF u] Inr lists obtain e1 where e1: "h1 = h @ e1"
        "prefix (without_errors e1) (schema_events cur del cre upd)"
        "r1 = Inr () \<longrightarrow> without_errors e1 = schema_events cur del cre upd"
        by blast
      from updateSchema_result [OF u] Inr lists have r1: "r1 = Inr () \<or> r1 = Inl HttpError"
        by blast
      show ?thesis
      proof (cases "r1 = Inr ()")
        case False
        with r1 have "r1 = Inl HttpError" by simp
        with Cons.prems f Own u have "res = Inl HttpError" "h' = h1" by auto
        with e1 pl show ?thesis
          by (intro exI [of _ e1]) (simp add: prefix_append_left)
      next
        case True
        with Cons.prems f Own u have
          "updateSchemas remote (meta(objectType \<mapsto> cur\<lparr>rs_properties := None\<rparr>)) files h1
             = (res, h')"
          by simp
        from Cons.IH [OF this] obtain evs where evs: "h' = h1 @ evs"
          "prefix (without_errors evs) ?rest"
          "res \<noteq> Inl HttpError \<longrightarrow> without_errors evs = ?rest"
          by blast
        with e1 True pl show ?thesis
          by (intro exI [of _ "e1 @ evs"]) (simp add: without_errors_append)
      qed
    qed
  qed
qed

lemma updateSchemas_outcome:
  "updateSchemas remote meta files h = (res, h') \<Longrightarrow>
   \<exists>evs. h' = h @ evs \<and> run_outcome remote h evs res"
proof (induction files arbitrary: meta h)
  case Nil
  then show ?case by (auto simp: run_outcome_def)
next
  case (Cons f files)
  obtain objectType objectSchema where f: "f = (objectType, objectSchema)" by (cases f)
  show ?case
  proof (cases "index_get meta objectType")
    case Missing
    let ?l = "Log (DoesNotExist objectType)"
    from Cons.prems f Missing have "updateSchemas remote meta files (h @ [?l]) = (res, h')"
      by (simp add: say_def)
    from Cons.IH [OF this] obtain evs where evs: "h' = (h @ [?l]) @ evs"
      "run_outcome remote (h @ [?l]) evs res"
      by blast
    have "handled remote h [?l]" by simp
    from run_outcome_append [OF this evs(2)] evs(1) show ?thesis
      by (intro exI [of _ "[?l] @ evs"]) simp
  next
    case Inherited
    with Cons.prems f have "res = Inl TypeError" "h' = h" by auto
    then show ?thesis by (simp add: run_outcome_def)
  next
    case (Own cur)
    obtain r1 h1 where u: "updateSchema remote objectSchema cur h = (r1, h1)" by fastforce
    from updateSchema_outcome [OF u] obtain e1 where e1: "h1 = h @ e1"
      "run_outcome remote h e1 r1"
      by blast
    show ?thesis
    proof (cases r1)
      case (Inl e)
      with Cons.prems f Own u have "res = r1" "h' = h1" by auto
      with e1 show ?thesis by blast
    next
      case (Inr x)
      with e1(2) have g1: "handled remote h e1" by (simp add: run_outcome_def)
      from Cons.prems f Own u Inr have
        "updateSchemas remote (meta(objectType \<mapsto> cur\<lparr>rs_properties := None\<rparr>)) files h1
           = (res, h')"
        by simp
      from Cons.IH [OF this] obtain evs where evs: "h' = h1 @ evs"
        "run_outcome remote h1 evs res"
        by blast
      from run_outcome_append [OF g1] evs e1(1) show ?thesis
        by (intro exI [of _ "e1 @ evs"]) simp
    qed
  qed
qed

lemmas flow_defs =
  updateSchema_def deal_reconcile deal_names call_def say_def deal_index_def index_get_def
  inherited_member_def

lemma deal_patch_reconcile:
  "reconcile (ls_properties deal_patch_file) (rs_properties deal_entry)
     = Inr ([], [], [foo_relabelled, legacy_relabelled])"
  by (simp add: deal_patch_file_def deal_entry_def legacy_relabelled_def reconcile_defs
      scenario_defs)

lemma legacy_relabelled_name:
  "member_of legacy_relabelled ''name'' = Some (JStr ''legacy_field'')"
  by (simp add: legacy_relabelled_def member_of_Cons)

text \<open>
  Claim C5, as amended. In the events of an update run, a rejected property delete or
  create is the last event and the run ends with the HTTP error: no later property and
  no later file is touched. A rejected property update is followed by the printed error
  and does not cut the run short: apart from the printed errors, the events are an
  initial part of the lines and requests planned for the batch, and all of them when no
  property delete or create is rejected. A run that ends with the HTTP error ends at a
  rejected property delete or create.
\<close>

theorem updateSchemas_rejection:
  assumes "updateSchemas remote meta files h = (res, h')"
  shows "\<exists>evs. h' = h @ evs
    \<and> (\<forall>pre req post. evs = pre @ Http req # post \<and> remote (h @ pre) req = Rejected \<longrightarrow>
          (if aborting req then post = [] \<and> res = Inl HttpError
           else \<exists>post'. post = Log ErrorObject # post'))
    \<and> (res = Inl HttpError \<longrightarrow>
          (\<exists>pre req. evs = pre @ [Http req] \<and> aborting req \<and> remote (h @ pre) req = Rejected))
    \<and> prefix (without_errors evs) (planned meta files)
    \<and> ((\<forall>pre req post. evs = pre @ Http req # post \<and> aborting req \<longrightarrow>
           remote (h @ pre) req \<noteq> Rejected) \<longrightarrow>
        res \<noteq> Inl HttpError \<and> without_errors evs = planned meta files)"
proof -
  from updateSchemas_outcome [OF assms] obtain evs where evs: "h' = h @ evs"
    "run_outcome remote h evs res"
    by blast
  from updateSchemas_planned [OF assms] evs(1) have pl:
    "prefix (without_errors evs) (planned meta files)"
    "res \<noteq> Inl HttpError \<longrightarrow> without_errors evs = planned meta files"
    by auto
  from evs(2) have st: "stops remote h evs (res = Inl HttpError)"
    by (auto simp: run_outcome_def handled_stops split: if_splits)
  have rej: "\<forall>pre req post. evs = pre @ Http req # post \<and> remote (h @ pre) req = Rejected \<longrightarrow>
          (if aborting req then post = [] \<and> res = Inl HttpError
           else \<exists>post'. post = Log ErrorObject # post')"
    using stops_split [OF st] by blast
  have ended: "res = Inl HttpError \<longrightarrow>
          (\<exists>pre req. evs = pre @ [Http req] \<and> aborting req \<and> remote (h @ pre) req = Rejected)"
    using evs(2) ends_rejected_split by (auto simp: run_outcome_def)
  have all: "res \<noteq> Inl HttpError \<and> without_errors evs = planned meta files"
    if none: "\<forall>pre req post. evs = pre @ Http req # post \<and> aborting req \<longrightarrow>
           remote (h @ pre) req \<noteq> Rejected"
  proof -
    have "res \<noteq> Inl HttpError"
    proof
      assume "res = Inl HttpError"
      with ended obtain pre req where "evs = pre @ Http req # []" "aborting req"
        "remote (h @ pre) req = Rejected"
        by auto
      with none show False by blast
    qed
    with pl(2) show ?thesis by simp
  qed
  from evs(1) rej ended pl(1) all show ?thesis
    by (intro exI [of _ evs]) blast
qed

theorem updateSchemas_rejection_witness:
  "updateSchemas rejecting_posts deal_index
      [(''deal'', deal_file), (''contact_custom'', contact_custom_file)] []
     = (Inl HttpError,
        [Log (DeletingProperty (Some (JStr ''legacy_field'')) (Some ''deal'')),
         Http (DeleteProperty ''2-101'' (Some (JStr ''legacy_field''))),
         Log (CreatingProperty (Some (JStr ''amount'')) (Some ''deal'')),
         Http (PostProperty ''2-101'' amount)])
   \<and> rejecting_posts
        [Log (DeletingProperty (Some (JStr ''legacy_field'')) (Some ''deal'')),
         Http (DeleteProperty ''2-101'' (Some (JStr ''legacy_field''))),
         Log (CreatingProperty (Some (JStr ''amount'')) (Some ''deal''))]
        (PostProperty ''2-101'' amount) = Rejected
   \<and> aborting (PostProperty ''2-101'' amount :: int request)
   \<and> updateSchemas rejecting_patches deal_index
        [(''deal'', deal_patch_file), (''contact_custom'', contact_custom_file)] []
       = (Inr (), patch_events)
   \<and> rejecting_patches
        [Log (UpdatingProperty (Some (JStr ''foo'')) (Some ''deal''))]
        (PatchProperty ''2-101'' (Some (JStr ''foo'')) foo_relabelled) = Rejected
   \<and> without_errors patch_events
       = planned deal_index [(''deal'', deal_patch_file), (''contact_custom'', contact_custom_file)]"
proof -
  let ?files = "[(''deal'', deal_file), (''contact_custom'', contact_custom_file)]"
  let ?pre = "[Log (DeletingProperty (Some (JStr ''legacy_field'')) (Some ''deal'')),
         Http (DeleteProperty ''2-101'' (Some (JStr ''legacy_field''))),
         Log (CreatingProperty (Some (JStr ''amount'')) (Some ''deal''))]"
  let ?req = "PostProperty ''2-101'' amount :: int request"
  have tr: "snd (updateSchemas rejecting_posts deal_index ?files []) = ?pre @ [Http ?req]"
    by (simp add: flow_defs rejecting_posts_def) (simp add: deal_entry_def)
  obtain res where run: "updateSchemas rejecting_posts deal_index ?files [] = (res, ?pre @ [Http ?req])"
    using tr by (metis prod.collapse)
  have rej: "rejecting_posts ([] @ ?pre) ?req = Rejected"
    by (simp add: rejecting_posts_def)
  from updateSchemas_rejection [OF run] obtain evs where evs: "?pre @ [Http ?req] = [] @ evs"
    and ab: "\<And>pre req post. evs = pre @ Http req # post \<Longrightarrow>
          rejecting_posts ([] @ pre) req = Rejected \<Longrightarrow>
          (if aborting req then post = [] \<and> res = Inl HttpError
           else \<exists>post'. post = Log ErrorObject # post')"
    by blast
  from evs have "evs = ?pre @ Http ?req # []" by simp
  from ab [OF this rej] have "res = Inl HttpError" by simp
  with run rej have posts:
    "updateSchemas rejecting_posts deal_index ?files [] = (Inl HttpError, ?pre @ [Http ?req])"
    "rejecting_posts ?pre ?req = Rejected"
    by simp_all
  let ?pfiles = "[(''deal'', deal_patch_file), (''contact_custom'', contact_custom_file)]"
  have prun: "updateSchemas rejecting_patches deal_index ?pfiles [] = (Inr (), patch_events)"
    by (simp add: updateSchema_def deal_patch_reconcile deal_names legacy_relabelled_name
        call_def say_def deal_index_def index_get_def inherited_member_def
        rejecting_patches_def patch_events_def)
      (simp add: deal_entry_def)
  have prej: "rejecting_patches
        [Log (UpdatingProperty (Some (JStr ''foo'')) (Some ''deal''))]
        (PatchProperty ''2-101'' (Some (JStr ''foo'')) foo_relabelled) = Rejected"
    by (simp add: rejecting_patches_def)
  from updateSchemas_rejection [OF prun] obtain pevs where pevs: "patch_events = [] @ pevs"
    and all: "(\<forall>pre req post. pevs = pre @ Http req # post \<and> aborting req \<longrightarrow>
           rejecting_patches ([] @ pre) req \<noteq> Rejected) \<longrightarrow>
        without_errors pevs = planned deal_index ?pfiles"
    by blast
  have "rejecting_patches h req \<noteq> Rejected" if "aborting req" for h and req :: "int request"
    using that by (cases req) (simp_all add: rejecting_patches_def)
  with all pevs have "without_errors patch_events = planned deal_index ?pfiles"
    by simp
  with posts prun prej show ?thesis by simp
qed

text \<open>
  The claim as stated fails: when the service rejects the delete of \<^verbatim>\<open>legacy_field\<close>,
  the run ends there; \<^verbatim>\<open>amount\<close> is not created, \<^verbatim>\<open>foo\<close> is not updated and the second
  file is not looked at.
\<close>

theorem updateSchemas_rejection_counterexample:
  "reconcile (ls_properties deal_file) (rs_properties deal_entry)
     = Inr ([legacy_field], [amount], [foo_relabelled])
   \<and> updateSchemas rejecting deal_index
        [(''deal'', deal_file), (''contact_custom'', contact_custom_file)] []
       = (Inl HttpError,
          [Log (DeletingProperty (Some (JStr ''legacy_field'')) (Some ''deal'')),
           Http (DeleteProperty ''2-101'' (Some (JStr ''legacy_field'')))])"
  by (simp add: flow_defs rejecting_def) (simp add: deal_entry_def)

end
